theory Spec2Isabelle
  imports Main "HOL-Library.Word" "HOL-Library.Multiset"
begin

section \<open>JavaScript values shared by both scripts\<close>

text \<open>
  A JavaScript string is a sequence of UTF-16 code units. User-controlled text (field
  values, cell texts) is modelled as a list of 16-bit words, so that \<open>length\<close> is
  \<open>String.prototype.length\<close> and the character classes of the regular expressions
  are sets of code units. String constants of the program that are plain ASCII (class
  names, job statuses) are written as HOL strings.
\<close>

type_synonym jschar = "16 word"
type_synonym jsstring = "jschar list"

definition js :: "string \<Rightarrow> jsstring" where
  "js s = map (\<lambda>c. of_nat (of_char c)) s"

datatype js_error = TypeError | SyntaxError

section \<open>script.js: the notification badge\<close>

text \<open>
  \<open>Number.prototype.toString\<close> on a non-negative integer: its decimal digits.
\<close>

definition digit_char :: "nat \<Rightarrow> char" where
  "digit_char d = char_of (48 + d)"

function string_of_nat :: "nat \<Rightarrow> string" where
  "string_of_nat n =
     (if n < 10 then [digit_char n] else string_of_nat (n div 10) @ [digit_char (n mod 10)])"
  by pat_completeness auto
termination
  by (relation "measure (\<lambda>n. n)") auto

declare string_of_nat.simps [simp del]

text \<open>Reading decimal digits back, to say what \<open>string_of_nat\<close> prints.\<close>

definition digit_val :: "char \<Rightarrow> nat" where
  "digit_val c = of_char c - 48"

definition nat_of_string :: "string \<Rightarrow> nat" where
  "nat_of_string s = foldl (\<lambda>acc c. 10 * acc + digit_val c) 0 s"

text \<open>
  The element found by \<open>document.querySelector('.notification-badge')\<close>: its text
  and its class list. \<open>None\<close> is the \<open>null\<close> the query returns on a page without badge.
\<close>

record badge =
  textContent :: string
  classList :: "string set"

text \<open>
  \<^verbatim>\<open>
  function updateNotificationCount(count) {
      const badge = document.querySelector('.notification-badge');
      if (badge) {
          if (count > 0) {
              badge.textContent = count > 99 ? '99+' : count;
              badge.classList.remove('d-none');
          } else {
              badge.classList.add('d-none');
          }
      }
  }
  \<close>
  \<open>count\<close> is an integer; the assignment to \<open>textContent\<close> converts it to its
  decimal string.
\<close>

definition updateNotificationCount :: "int \<Rightarrow> badge option \<Rightarrow> badge option" where
  "updateNotificationCount cnt query =
     (case query of
        None \<Rightarrow> None
      | Some badge \<Rightarrow>
          if cnt > 0 then
            Some (badge\<lparr>textContent := (if cnt > 99 then ''99+'' else string_of_nat (nat cnt)),
                        classList := classList badge - {''d-none''}\<rparr>)
          else
            Some (badge\<lparr>classList := insert ''d-none'' (classList badge)\<rparr>))"

definition badge_visible :: "badge \<Rightarrow> bool" where
  "badge_visible b = (''d-none'' \<notin> classList b)"

section \<open>script.js: filtering a table\<close>

text \<open>
  A \<open>tr\<close> of the table body, as the two table functions read it: the text of the whole
  row, the text of each child cell, and the inline \<open>style.display\<close>.
\<close>

record tr =
  tr_text :: jsstring
  tr_cells :: "jsstring list"
  tr_display :: string

text \<open>
  \<open>String.prototype.includes\<close>: the search string occurs at some position of the
  text. \<open>starts_with\<close> compares at one position, \<open>str_includes\<close> tries every position
  from the left.
\<close>

fun starts_with :: "'a list \<Rightarrow> 'a list \<Rightarrow> bool" where
  "starts_with text [] = True"
| "starts_with [] (c # cs) = False"
| "starts_with (t # ts) (c # cs) = (t = c \<and> starts_with ts cs)"

fun str_includes :: "'a list \<Rightarrow> 'a list \<Rightarrow> bool" where
  "str_includes [] search = starts_with [] search"
| "str_includes (t # ts) search = (starts_with (t # ts) search \<or> str_includes ts search)"

text \<open>
  \<^verbatim>\<open>
  function filterTable(searchInput) {
      const searchTerm = searchInput.value.toLowerCase();
      const table = searchInput.closest('.table-container').querySelector('table');
      const rows = table.querySelectorAll('tbody tr');
      rows.forEach(row => {
          const text = row.textContent.toLowerCase();
          row.style.display = text.includes(searchTerm) ? '' : 'none';
      });
  }
  \<close>
  \<open>toLowerCase\<close> is the engine's Unicode lower-casing and is a parameter. The second
  argument is the value of the input, the third the body rows of the table the input
  belongs to; it is \<open>None\<close> when the input has no \<open>.table-container\<close> ancestor or that
  holds no table, where the property access on \<open>null\<close> throws.
\<close>

definition filterTable ::
  "(jsstring \<Rightarrow> jsstring) \<Rightarrow> jsstring \<Rightarrow> tr list option \<Rightarrow> js_error + tr list" where
  "filterTable toLowerCase val table =
     (let searchTerm = toLowerCase val in
      case table of
        None \<Rightarrow> Inl TypeError
      | Some rows \<Rightarrow>
          Inr (map (\<lambda>row. let text = toLowerCase (tr_text row) in
                           row\<lparr>tr_display := (if str_includes text searchTerm then '''' else ''none'')\<rparr>)
                   rows))"

definition row_visible :: "tr \<Rightarrow> bool" where
  "row_visible row = (tr_display row = '''')"

text \<open>An ASCII-only lower-casing, to run the filter on concrete rows.\<close>

definition ascii_lower :: "jsstring \<Rightarrow> jsstring" where
  "ascii_lower s = map (\<lambda>c. if 65 \<le> c \<and> c \<le> 90 then c + 32 else c) s"

section \<open>script.js: sorting a table\<close>

text \<open>
  A function of the script either returns or throws; in both cases the DOM it has
  changed so far stays changed, so both outcomes carry the state.
\<close>

datatype 's completion = Normal 's | Throw js_error 's

text \<open>
  White space as \<open>String.prototype.trim\<close> and the class \<open>\s\<close> of a regular
  expression understand it: the WhiteSpace and LineTerminator code units of ECMAScript
  (TAB, LF, VT, FF, CR, SP, NBSP, U+1680, U+2000 to U+200A, U+2028, U+2029, U+202F,
  U+205F, U+3000, U+FEFF).
\<close>

definition is_space :: "jschar \<Rightarrow> bool" where
  "is_space c = (c \<in> {9, 10, 11, 12, 13, 32, 160, 5760, 8232, 8233, 8239, 8287, 12288, 65279}
                 \<or> (8192 \<le> c \<and> c \<le> 8202))"

definition trim :: "jsstring \<Rightarrow> jsstring" where
  "trim s = rev (dropWhile is_space (rev (dropWhile is_space s)))"

text \<open>
  A header cell: its position among the children of its row, and its class list. A table:
  its header cells (\<open>table.querySelectorAll('th')\<close>) and its body rows.
\<close>

record th =
  th_index :: nat
  th_classes :: "string set"

record table =
  headers :: "th list"
  body :: "tr list"

text \<open>
  \<^verbatim>\<open>
  rows.sort((a, b) => {
      const aValue = a.children[columnIndex].textContent.trim();
      const bValue = b.children[columnIndex].textContent.trim();
      if (!isAsc) {
          return aValue.localeCompare(bValue, undefined, { numeric: true });
      } else {
          return bValue.localeCompare(aValue, undefined, { numeric: true });
      }
  });
  \<close>
  A row with no cell at \<open>columnIndex\<close> makes \<open>a.children[columnIndex]\<close> undefined, and
  reading \<open>textContent\<close> of it throws. The numeric-aware \<open>localeCompare\<close> of the engine
  is a parameter.
\<close>

definition cell_text :: "nat \<Rightarrow> tr \<Rightarrow> js_error + jsstring" where
  "cell_text columnIndex row =
     (if columnIndex < length (tr_cells row) then Inr (trim (tr_cells row ! columnIndex))
      else Inl TypeError)"

definition compare_rows ::
  "(jsstring \<Rightarrow> jsstring \<Rightarrow> int) \<Rightarrow> nat \<Rightarrow> bool \<Rightarrow> tr \<Rightarrow> tr \<Rightarrow> js_error + int" where
  "compare_rows localeCompare columnIndex isAsc a b =
     (case cell_text columnIndex a of
        Inl e \<Rightarrow> Inl e
      | Inr aValue \<Rightarrow>
          (case cell_text columnIndex b of
             Inl e \<Rightarrow> Inl e
           | Inr bValue \<Rightarrow>
               if \<not> isAsc then Inr (localeCompare aValue bValue)
               else Inr (localeCompare bValue aValue)))"

text \<open>
  \<open>Array.prototype.sort\<close> with a comparison function is a stable sort: elements that
  compare equal keep their order. The stable sort is written as an insertion sort, which
  puts an element before the first element it does not come after; a throwing comparison
  aborts the sort.
\<close>

fun insert_by :: "('a \<Rightarrow> 'a \<Rightarrow> js_error + int) \<Rightarrow> 'a \<Rightarrow> 'a list \<Rightarrow> js_error + 'a list" where
  "insert_by c x [] = Inr [x]"
| "insert_by c x (y # ys) =
     (case c x y of
        Inl e \<Rightarrow> Inl e
      | Inr v \<Rightarrow>
          if v \<le> 0 then Inr (x # y # ys)
          else (case insert_by c x ys of Inl e \<Rightarrow> Inl e | Inr zs \<Rightarrow> Inr (y # zs)))"

fun sort_by :: "('a \<Rightarrow> 'a \<Rightarrow> js_error + int) \<Rightarrow> 'a list \<Rightarrow> js_error + 'a list" where
  "sort_by c [] = Inr []"
| "sort_by c (x # xs) =
     (case sort_by c xs of Inl e \<Rightarrow> Inl e | Inr ys \<Rightarrow> insert_by c x ys)"

text \<open>\<open>classList.toggle(cls, force)\<close>: adds the class when \<open>force\<close> is true, removes it otherwise.\<close>

definition toggle :: "string \<Rightarrow> bool \<Rightarrow> string set \<Rightarrow> string set" where
  "toggle cls force classes = (if force then insert cls classes else classes - {cls})"

text \<open>
  \<^verbatim>\<open>
  function sortTable(header) {
      const table = header.closest('table');
      const columnIndex = Array.from(header.parentNode.children).indexOf(header);
      const rows = Array.from(table.querySelectorAll('tbody tr'));
      const isAsc = header.classList.contains('sort-asc');
      table.querySelectorAll('th').forEach(th => {
          th.classList.remove('sort-asc', 'sort-desc');
      });
      rows.sort((a, b) => { ... });
      const tbody = table.querySelector('tbody');
      rows.forEach(row => tbody.appendChild(row));
      header.classList.toggle('sort-asc', !isAsc);
      header.classList.toggle('sort-desc', isAsc);
  }
  \<close>
  The clicked header is the \<open>h\<close>-th header cell of the table; a header outside the
  table has no \<open>closest('table')\<close> and the first query on \<open>null\<close> throws. Appending
  the sorted rows to the body one after the other leaves the body in the sorted order.
\<close>

definition sortTable ::
  "(jsstring \<Rightarrow> jsstring \<Rightarrow> int) \<Rightarrow> nat \<Rightarrow> table \<Rightarrow> table completion" where
  "sortTable localeCompare h t =
     (if length (headers t) \<le> h then Throw TypeError t
      else
        let header = headers t ! h;
            columnIndex = th_index header;
            rows = body t;
            isAsc = (''sort-asc'' \<in> th_classes header);
            cleared = map (\<lambda>th. th\<lparr>th_classes := th_classes th - {''sort-asc'', ''sort-desc''}\<rparr>)
                          (headers t);
            t1 = t\<lparr>headers := cleared\<rparr>
        in case sort_by (compare_rows localeCompare columnIndex isAsc) rows of
             Inl e \<Rightarrow> Throw e t1
           | Inr sortedRows \<Rightarrow>
               let t2 = t1\<lparr>body := sortedRows\<rparr>;
                   hd1 = cleared ! h;
                   hd2 = hd1\<lparr>th_classes := toggle ''sort-desc'' isAsc
                                               (toggle ''sort-asc'' (\<not> isAsc) (th_classes hd1))\<rparr>
               in Normal (t2\<lparr>headers := cleared[h := hd2]\<rparr>))"

text \<open>
  What the claim about sorting speaks of. A comparison function is consistent when it
  orders any two strings one way or the other and does so transitively, as a collation
  does. The key of a row is the trimmed text of its cell in the clicked column; rows are
  ascending when each row's key compares less than or equal to the keys of the rows
  after it, descending when greater than or equal.
\<close>

definition consistent_comparator :: "('k \<Rightarrow> 'k \<Rightarrow> int) \<Rightarrow> bool" where
  "consistent_comparator cmp =
     ((\<forall>a b. cmp a b \<le> 0 \<or> cmp b a \<le> 0)
      \<and> (\<forall>a b c. cmp a b \<le> 0 \<and> cmp b c \<le> 0 \<longrightarrow> cmp a c \<le> 0))"

definition column_key :: "nat \<Rightarrow> tr \<Rightarrow> jsstring" where
  "column_key columnIndex row = trim (tr_cells row ! columnIndex)"

definition ascending :: "(jsstring \<Rightarrow> jsstring \<Rightarrow> int) \<Rightarrow> nat \<Rightarrow> tr list \<Rightarrow> bool" where
  "ascending cmp ci rows = sorted_wrt (\<lambda>a b. cmp (column_key ci a) (column_key ci b) \<le> 0) rows"

definition descending :: "(jsstring \<Rightarrow> jsstring \<Rightarrow> int) \<Rightarrow> nat \<Rightarrow> tr list \<Rightarrow> bool" where
  "descending cmp ci rows = sorted_wrt (\<lambda>a b. cmp (column_key ci b) (column_key ci a) \<le> 0) rows"

definition has_class :: "string \<Rightarrow> nat \<Rightarrow> table \<Rightarrow> bool" where
  "has_class cls h t = (cls \<in> th_classes (headers t ! h))"

definition row_le :: "(jsstring \<Rightarrow> jsstring \<Rightarrow> int) \<Rightarrow> nat \<Rightarrow> bool \<Rightarrow> tr \<Rightarrow> tr \<Rightarrow> bool" where
  "row_le cmp ci isAsc a b =
     (if isAsc then cmp (column_key ci b) (column_key ci a) \<le> 0
      else cmp (column_key ci a) (column_key ci b) \<le> 0)"

text \<open>
  A concrete comparison function to run the sort with: code unit by code unit, the
  shorter string first.
\<close>

fun codeunit_compare :: "jsstring \<Rightarrow> jsstring \<Rightarrow> int" where
  "codeunit_compare [] [] = 0"
| "codeunit_compare [] (y # ys) = - 1"
| "codeunit_compare (x # xs) [] = 1"
| "codeunit_compare (x # xs) (y # ys) =
     (if x < y then - 1 else if y < x then 1 else codeunit_compare xs ys)"




definition ties_table :: table where
  "ties_table =
     \<lparr>headers = [\<lparr>th_index = 0, th_classes = {}\<rparr>],
      body = [\<lparr>tr_text = js ''a1'', tr_cells = [js ''a'', js ''1''], tr_display = ''''\<rparr>,
              \<lparr>tr_text = js ''a2'', tr_cells = [js ''a'', js ''2''], tr_display = ''''\<rparr>]\<rparr>"

section \<open>script.js: validating a form\<close>

subsection \<open>Regular expressions\<close>

text \<open>
  The regular expressions of the script use character classes, concatenation and \<open>+\<close>.
  They are matched against the whole string (the pattern is anchored with \<open>^\<close> and
  \<open>$\<close>) by taking derivatives, one code unit at a time.
\<close>

datatype 'c regex =
    Never
  | Empty
  | Class "'c \<Rightarrow> bool"
  | Seq "'c regex" "'c regex"
  | Alt "'c regex" "'c regex"
  | Star "'c regex"

definition Plus :: "'c regex \<Rightarrow> 'c regex" where
  "Plus r = Seq r (Star r)"

fun nullable :: "'c regex \<Rightarrow> bool" where
  "nullable Never = False"
| "nullable Empty = True"
| "nullable (Class p) = False"
| "nullable (Seq r s) = (nullable r \<and> nullable s)"
| "nullable (Alt r s) = (nullable r \<or> nullable s)"
| "nullable (Star r) = True"

fun deriv :: "'c \<Rightarrow> 'c regex \<Rightarrow> 'c regex" where
  "deriv c Never = Never"
| "deriv c Empty = Never"
| "deriv c (Class p) = (if p c then Empty else Never)"
| "deriv c (Seq r s) =
     (if nullable r then Alt (Seq (deriv c r) s) (deriv c s) else Seq (deriv c r) s)"
| "deriv c (Alt r s) = Alt (deriv c r) (deriv c s)"
| "deriv c (Star r) = Seq (deriv c r) (Star r)"

fun matches :: "'c regex \<Rightarrow> 'c list \<Rightarrow> bool" where
  "matches r [] = nullable r"
| "matches r (c # cs) = matches (deriv c r) cs"



text \<open>
  \<^verbatim>\<open>
  function isValidEmail(email) {
      const re = /^[^\s@]+@[^\s@]+\.[^\s@]+$/;
      return re.test(email);
  }
  \<close>
  The class \<open>[^\s@]\<close> is every code unit that is neither white space nor \<open>@\<close>
  (code unit 64); the escaped dot is the code unit 46.
\<close>

definition not_space_or_at :: "jschar \<Rightarrow> bool" where
  "not_space_or_at c = (\<not> is_space c \<and> c \<noteq> 64)"

definition email_re :: "jschar regex" where
  "email_re =
     Seq (Plus (Class not_space_or_at))
       (Seq (Class (\<lambda>c. c = 64))
         (Seq (Plus (Class not_space_or_at))
           (Seq (Class (\<lambda>c. c = 46))
             (Plus (Class not_space_or_at)))))"

definition isValidEmail :: "jsstring \<Rightarrow> bool" where
  "isValidEmail email = matches email_re email"


subsection \<open>The form and its fields\<close>

text \<open>
  A control of the form: its tag, its \<open>type\<close> attribute as far as the selectors of
  \<open>validateForm\<close> tell types apart, whether it has the \<open>required\<close> attribute, its
  value, the identity of its parent element and its class list. The three messages of
  \<open>validateForm\<close> are Russian sentences (the field is required; enter a correct email
  address; the password must have at least 6 characters); \<open>OtherMessage\<close> is any
  other text of an \<open>.invalid-feedback\<close> element already on the page.
\<close>

datatype tag = InputTag | SelectTag | TextareaTag

datatype input_type = EmailType | PasswordType | OtherType

datatype message = RequiredMessage | EmailMessage | PasswordMessage | OtherMessage

record field =
  f_tag :: tag
  f_type :: input_type
  f_required :: bool
  f_value :: jsstring
  f_parent :: nat
  f_classes :: "string set"

text \<open>
  The form: its controls in document order, for every parent element the
  \<open>.invalid-feedback\<close> elements inside it in document order, and the history of the
  calls of \<open>showFieldError\<close> (for which control, with which message). Parent elements
  of different controls are taken to be the same element or disjoint.
\<close>

record form =
  controls :: "field list"
  feedback :: "nat \<Rightarrow> message list"
  appended :: "(nat \<times> message) list"

definition classList_update :: "nat \<Rightarrow> (string set \<Rightarrow> string set) \<Rightarrow> form \<Rightarrow> form" where
  "classList_update i f fm =
     fm\<lparr>controls := (controls fm)[i := (controls fm ! i)\<lparr>f_classes := f (f_classes (controls fm ! i))\<rparr>]\<rparr>"

text \<open>
  \<^verbatim>\<open>
  function showFieldError(field, message) {
      const errorDiv = document.createElement('div');
      errorDiv.className = 'invalid-feedback';
      errorDiv.textContent = message;
      field.parentElement.appendChild(errorDiv);
  }
  \<close>
\<close>

definition showFieldError :: "nat \<Rightarrow> message \<Rightarrow> form \<Rightarrow> form" where
  "showFieldError i msg fm =
     (let p = f_parent (controls fm ! i)
      in fm\<lparr>feedback := (feedback fm)(p := feedback fm p @ [msg]),
            appended := appended fm @ [(i, msg)]\<rparr>)"

text \<open>
  \<^verbatim>\<open>
  const errorDiv = field.parentElement.querySelector('.invalid-feedback');
  if (errorDiv) errorDiv.remove();
  \<close>
\<close>

definition remove_errorDiv :: "nat \<Rightarrow> form \<Rightarrow> form" where
  "remove_errorDiv i fm =
     (let p = f_parent (controls fm ! i)
      in case feedback fm p of
           [] \<Rightarrow> fm
         | errorDiv # others \<Rightarrow> fm\<lparr>feedback := (feedback fm)(p := others)\<rparr>)"

text \<open>
  The three queries of \<open>validateForm\<close>, as the positions of the controls they select:
  \<open>'input[required], select[required], textarea[required]'\<close>,
  \<open>'input[type="email"]'\<close> and \<open>'input[type="password"]'\<close>.
\<close>

definition requiredFields :: "form \<Rightarrow> nat list" where
  "requiredFields fm = filter (\<lambda>i. f_required (controls fm ! i)) [0..<length (controls fm)]"

definition is_email :: "field \<Rightarrow> bool" where
  "is_email f = (f_tag f = InputTag \<and> f_type f = EmailType)"

definition is_password :: "field \<Rightarrow> bool" where
  "is_password f = (f_tag f = InputTag \<and> f_type f = PasswordType)"

definition emailFields :: "form \<Rightarrow> nat list" where
  "emailFields fm = filter (\<lambda>i. is_email (controls fm ! i)) [0..<length (controls fm)]"

definition passwordFields :: "form \<Rightarrow> nat list" where
  "passwordFields fm = filter (\<lambda>i. is_password (controls fm ! i)) [0..<length (controls fm)]"

text \<open>
  \<^verbatim>\<open>
  requiredFields.forEach(field => {
      field.classList.remove('is-invalid');
      const errorDiv = field.parentElement.querySelector('.invalid-feedback');
      if (errorDiv) errorDiv.remove();
      if (!field.value.trim()) {
          field.classList.add('is-invalid');
          showFieldError(field, '...');
          isValid = false;
      }
  });
  \<close>
  The body of each loop takes the form and \<open>isValid\<close> and returns both.
\<close>

definition check_required :: "nat \<Rightarrow> form \<times> bool \<Rightarrow> form \<times> bool" where
  "check_required i st =
     (let fm1 = classList_update i (\<lambda>c. c - {''is-invalid''}) (fst st);
          fm2 = remove_errorDiv i fm1
      in if trim (f_value (controls fm2 ! i)) = [] then
           (showFieldError i RequiredMessage (classList_update i (insert ''is-invalid'') fm2), False)
         else (fm2, snd st))"

text \<open>
  \<^verbatim>\<open>
  emailFields.forEach(field => {
      if (field.value && !isValidEmail(field.value)) {
          field.classList.add('is-invalid');
          showFieldError(field, '...');
          isValid = false;
      }
  });
  \<close>
\<close>

definition check_email :: "nat \<Rightarrow> form \<times> bool \<Rightarrow> form \<times> bool" where
  "check_email i st =
     (let fm = fst st; field = controls fm ! i
      in if f_value field \<noteq> [] \<and> \<not> isValidEmail (f_value field) then
           (showFieldError i EmailMessage (classList_update i (insert ''is-invalid'') fm), False)
         else st)"

text \<open>
  \<^verbatim>\<open>
  passwordFields.forEach(field => {
      if (field.value && field.value.length < 6) {
          field.classList.add('is-invalid');
          showFieldError(field, '...');
          isValid = false;
      }
  });
  \<close>
\<close>

definition check_password :: "nat \<Rightarrow> form \<times> bool \<Rightarrow> form \<times> bool" where
  "check_password i st =
     (let fm = fst st; field = controls fm ! i
      in if f_value field \<noteq> [] \<and> length (f_value field) < 6 then
           (showFieldError i PasswordMessage (classList_update i (insert ''is-invalid'') fm), False)
         else st)"

text \<open>
  \<^verbatim>\<open>
  function validateForm(form) {
      let isValid = true;
      const requiredFields = form.querySelectorAll('input[required], select[required], textarea[required]');
      requiredFields.forEach(...);
      const emailFields = form.querySelectorAll('input[type="email"]');
      emailFields.forEach(...);
      const passwordFields = form.querySelectorAll('input[type="password"]');
      passwordFields.forEach(...);
      return isValid;
  }
  \<close>
\<close>

definition validateForm :: "form \<Rightarrow> bool \<times> form" where
  "validateForm form =
     (let st1 = fold check_required (requiredFields form) (form, True);
          st2 = fold check_email (emailFields (fst st1)) st1;
          st3 = fold check_password (passwordFields (fst st2)) st2
      in (snd st3, fst st3))"


text \<open>
  For the proofs: what \<open>validateForm\<close> never changes of a control, and the common
  shape of the three loop bodies.
\<close>

definition attrs :: "field \<Rightarrow> tag \<times> input_type \<times> bool \<times> jsstring \<times> nat" where
  "attrs f = (f_tag f, f_type f, f_required f, f_value f, f_parent f)"

definition check_step ::
  "bool \<Rightarrow> (jsstring \<Rightarrow> bool) \<Rightarrow> message \<Rightarrow> nat \<Rightarrow> form \<times> bool \<Rightarrow> form \<times> bool" where
  "check_step clean bad msg i st =
     (let fm2 = (if clean then remove_errorDiv i (classList_update i (\<lambda>c. c - {''is-invalid''}) (fst st))
                 else fst st)
      in if bad (f_value (controls fm2 ! i)) then
           (showFieldError i msg (classList_update i (insert ''is-invalid'') fm2), False)
         else (fm2, snd st))"

text \<open>Forms to run the validation on.\<close>

definition text_input :: "bool \<Rightarrow> input_type \<Rightarrow> jsstring \<Rightarrow> nat \<Rightarrow> field" where
  "text_input req ty v p =
     \<lparr>f_tag = InputTag, f_type = ty, f_required = req, f_value = v, f_parent = p, f_classes = {}\<rparr>"



definition shared_form :: form where
  "shared_form =
     \<lparr>controls = [text_input True OtherType [] 0, text_input True OtherType (js ''RUB'') 0],
      feedback = (\<lambda>p. []), appended = []\<rparr>"

section \<open>reports.js: the export queue\<close>

subsection \<open>Jobs, the queue and what the code does to them\<close>

text \<open>
  A value read from the form data: a string, a \<open>File\<close>, or \<open>undefined\<close> when the form
  has no entry of that name. Only a string has \<open>toUpperCase\<close>.
\<close>

datatype jsval = JString jsstring | JUndefined | JFile

definition is_string :: "jsval \<Rightarrow> bool" where
  "is_string v = (case v of JString s \<Rightarrow> True | JUndefined \<Rightarrow> False | JFile \<Rightarrow> False)"

text \<open>
  \<^verbatim>\<open>
  const exportJob = {
      id: 'export-' + Date.now(),
      type: formData.data_type,
      format: formData.format,
      status: 'queued',
      progress: 0
  };
  \<close>
  \<open>job_id\<close> is the time stamp of the id.
\<close>

record job =
  job_id :: nat
  job_type :: jsval
  job_format :: jsval
  status :: string
  progress :: nat

text \<open>
  What the code does, in the order it does it: the trace of a run. An assignment to
  \<open>job.status\<close> records the value it overwrites; \<open>Render\<close> is the assignment to
  \<open>innerHTML\<close> of the queue element, with the jobs the markup is generated from;
  \<open>Delay\<close> is \<open>setTimeout\<close> with its milliseconds; \<open>ConsoleLog\<close> is the line
  \<open>downloadExportResult\<close> logs, with the type and format it prints.
\<close>

datatype action =
    Push nat
  | Shift "nat option"
  | SetStatus nat string string
  | SetProgress nat nat
  | Render "job list"
  | Delay nat
  | ConsoleLog jsval jsval
  | ConsoleError

text \<open>
  The \<open>ReportSystem\<close> object and the part of the page it works on. Jobs are objects that
  the queue and the running loop both refer to, so they live in a store (\<open>heap\<close>, the
  address of a job is its position) and \<open>exportQueue\<close> holds addresses.
  \<open>queueContainer\<close> says whether the page has the element \<open>#export-queue\<close>.
  \<open>waiting\<close> are the calls of \<open>processExportQueue\<close> that are suspended in
  \<open>await this.delay(500)\<close>, each with its job and the loop variable \<open>progress\<close>.
  \<open>points\<close> lists the jobs of the queue after every change of the queue or of a job.
\<close>

record report_system =
  heap :: "job list"
  exportQueue :: "nat list"
  isProcessing :: bool
  queueContainer :: bool
  waiting :: "(nat \<times> nat) list"
  trace :: "action list"
  points :: "job list list"

definition queue_jobs :: "report_system \<Rightarrow> job list" where
  "queue_jobs s = map (\<lambda>a. heap s ! a) (exportQueue s)"

definition emit :: "action \<Rightarrow> report_system \<Rightarrow> report_system" where
  "emit act s = s\<lparr>trace := trace s @ [act]\<rparr>"

definition note_point :: "report_system \<Rightarrow> report_system" where
  "note_point s = s\<lparr>points := points s @ [queue_jobs s]\<rparr>"

text \<open>\<open>job.status = v\<close>, \<open>job.progress = p\<close>, \<open>exportQueue.push(job)\<close>, \<open>exportQueue.shift()\<close>.\<close>

definition set_status :: "nat \<Rightarrow> string \<Rightarrow> report_system \<Rightarrow> report_system" where
  "set_status a v s =
     note_point (emit (SetStatus a (status (heap s ! a)) v)
       (s\<lparr>heap := (heap s)[a := (heap s ! a)\<lparr>status := v\<rparr>]\<rparr>))"

definition set_progress :: "nat \<Rightarrow> nat \<Rightarrow> report_system \<Rightarrow> report_system" where
  "set_progress a p s =
     note_point (emit (SetProgress a p)
       (s\<lparr>heap := (heap s)[a := (heap s ! a)\<lparr>progress := p\<rparr>]\<rparr>))"

definition push_job :: "nat \<Rightarrow> report_system \<Rightarrow> report_system" where
  "push_job a s = note_point (emit (Push a) (s\<lparr>exportQueue := exportQueue s @ [a]\<rparr>))"

definition shift_queue :: "report_system \<Rightarrow> report_system" where
  "shift_queue s =
     (case exportQueue s of
        [] \<Rightarrow> note_point (emit (Shift None) s)
      | a # rest \<Rightarrow> note_point (emit (Shift (Some a)) (s\<lparr>exportQueue := rest\<rparr>)))"

text \<open>
  \<^verbatim>\<open>
  renderExportQueue() {
      const queueContainer = document.getElementById('export-queue');
      if (!queueContainer) return;
      queueContainer.innerHTML = this.exportQueue.map(job => `
          ... ${this.getExportTypeLabel(job.type)} ...
          ... ${job.format.toUpperCase()} ...
          ... ${this.getStatusLabel(job.status)} ... ${job.progress} ...
      `).join('');
  }
  \<close>
  The markup of a job is built from its fields; \<open>job.format.toUpperCase()\<close> throws a
  TypeError for a job whose format is not a string, and then nothing is assigned.
\<close>

definition renderExportQueue :: "report_system \<Rightarrow> report_system completion" where
  "renderExportQueue s =
     (if \<not> queueContainer s then Normal s
      else if list_all (\<lambda>job. is_string (job_format job)) (queue_jobs s)
        then Normal (emit (Render (queue_jobs s)) s)
        else Throw TypeError s)"

text \<open>
  \<^verbatim>\<open>
  downloadExportResult(job) {
      console.log(`...: ${job.type}.${job.format}`);
  }
  \<close>
\<close>

definition downloadExportResult :: "nat \<Rightarrow> report_system \<Rightarrow> report_system" where
  "downloadExportResult job s =
     emit (ConsoleLog (job_type (heap s ! job)) (job_format (heap s ! job))) s"

subsection \<open>The asynchronous functions\<close>

text \<open>
  An \<open>async\<close> function runs until it returns, throws or reaches an \<open>await\<close> of a
  delay; nothing else runs in between. A segment of such a run ends in \<open>Done\<close>,
  \<open>Raised\<close> or \<open>Await\<close> with what is needed to go on after the delay.

  \<^verbatim>\<open>
  async processExportJob(job) {
      job.status = 'processing';
      this.renderExportQueue();
      for (let progress = 0; progress <= 100; progress += 10) {
          job.progress = progress;
          this.renderExportQueue();
          await this.delay(500);
      }
      job.status = 'completed';
      this.renderExportQueue();
      this.downloadExportResult(job);
  }
  \<close>
  \<open>processExportJob_loop\<close> is the \<open>for\<close> loop from its test on;
  \<open>processExportJob_resume\<close> goes on after the delay, with the increment of the loop.
\<close>

datatype 'a segment = Done | Raised js_error | Await 'a

definition processExportJob_loop ::
  "nat \<Rightarrow> nat \<Rightarrow> report_system \<Rightarrow> nat segment \<times> report_system" where
  "processExportJob_loop job prog s =
     (if prog \<le> 100 then
        (case renderExportQueue (set_progress job prog s) of
           Throw e s' \<Rightarrow> (Raised e, s')
         | Normal s' \<Rightarrow> (Await prog, emit (Delay 500) s'))
      else
        (case renderExportQueue (set_status job ''completed'' s) of
           Throw e s' \<Rightarrow> (Raised e, s')
         | Normal s' \<Rightarrow> (Done, downloadExportResult job s')))"

definition processExportJob :: "nat \<Rightarrow> report_system \<Rightarrow> nat segment \<times> report_system" where
  "processExportJob job s =
     (case renderExportQueue (set_status job ''processing'' s) of
        Throw e s' \<Rightarrow> (Raised e, s')
      | Normal s' \<Rightarrow> processExportJob_loop job 0 s')"

definition processExportJob_resume ::
  "nat \<Rightarrow> nat \<Rightarrow> report_system \<Rightarrow> nat segment \<times> report_system" where
  "processExportJob_resume job prog s = processExportJob_loop job (prog + 10) s"

text \<open>
  \<^verbatim>\<open>
  async processExportQueue() {
      if (this.isProcessing || this.exportQueue.length === 0) return;
      this.isProcessing = true;
      while (this.exportQueue.length > 0) {
          const job = this.exportQueue[0];
          try {
              await this.processExportJob(job);
              this.exportQueue.shift();
          } catch (error) {
              console.error('...', error);
              job.status = 'failed';
              this.renderExportQueue();
              break;
          }
      }
      this.isProcessing = false;
  }
  \<close>
  \<open>catch_block\<close> is the handler followed by the statement after the loop;
  \<open>while_loop\<close> is the loop from its test on. \<open>processExportJob\<close> always reaches
  its first delay or throws, so the loop goes round only in
  \<open>processExportQueue_resume\<close>, after a delay.
\<close>

definition catch_block :: "nat \<Rightarrow> report_system \<Rightarrow> (nat \<times> nat) segment \<times> report_system" where
  "catch_block job s =
     (case renderExportQueue (set_status job ''failed'' (emit ConsoleError s)) of
        Throw e s' \<Rightarrow> (Raised e, s')
      | Normal s' \<Rightarrow> (Done, s'\<lparr>isProcessing := False\<rparr>))"

function while_loop :: "report_system \<Rightarrow> (nat \<times> nat) segment \<times> report_system" where
  "while_loop s =
     (if exportQueue s \<noteq> [] then
        (let job = hd (exportQueue s) in
         case processExportJob job s of
           (Await prog, s1) \<Rightarrow> (Await (job, prog), s1)
         | (Done, s1) \<Rightarrow> while_loop (shift_queue s1)
         | (Raised e, s1) \<Rightarrow> catch_block job s1)
      else (Done, s\<lparr>isProcessing := False\<rparr>))"
  by pat_completeness auto
termination
proof (relation "measure (\<lambda>s. length (exportQueue s))")
  show "wf (measure (\<lambda>s. length (exportQueue s)))" by simp
next
  fix s :: report_system and job x1 s1
  assume "(x1, s1) = processExportJob job s" "x1 = Done"
  then have "fst (processExportJob job s) = Done" by (metis fst_conv)
  moreover have "fst (processExportJob job s) \<noteq> Done"
    by (simp add: processExportJob_def processExportJob_loop_def split: completion.splits)
  ultimately show "(shift_queue s1, s) \<in> measure (\<lambda>s. length (exportQueue s))" by simp
qed

declare while_loop.simps [simp del]

definition processExportQueue :: "report_system \<Rightarrow> (nat \<times> nat) segment \<times> report_system" where
  "processExportQueue s =
     (if isProcessing s \<or> length (exportQueue s) = 0 then (Done, s)
      else while_loop (s\<lparr>isProcessing := True\<rparr>))"

definition processExportQueue_resume ::
  "nat \<Rightarrow> nat \<Rightarrow> report_system \<Rightarrow> (nat \<times> nat) segment \<times> report_system" where
  "processExportQueue_resume job prog s =
     (case processExportJob_resume job prog s of
        (Await prog', s1) \<Rightarrow> (Await (job, prog'), s1)
      | (Done, s1) \<Rightarrow> while_loop (shift_queue s1)
      | (Raised e, s1) \<Rightarrow> catch_block job s1)"

text \<open>
  \<^verbatim>\<open>
  addToExportQueue(exportJob) {
      this.exportQueue.push(exportJob);
      this.renderExportQueue();
  }

  async handleExport(event) {
      event.preventDefault();
      const formData = this.getFormData('export-form');
      const exportJob = { ... };
      this.addToExportQueue(exportJob);
      await this.processExportQueue();
  }
  \<close>
  The arguments are \<open>Date.now()\<close> and the two entries of the form data. The new job is
  allocated at the end of the store.
\<close>

definition addToExportQueue :: "nat \<Rightarrow> report_system \<Rightarrow> report_system completion" where
  "addToExportQueue exportJob s = renderExportQueue (push_job exportJob s)"

definition handleExport ::
  "nat \<Rightarrow> jsval \<Rightarrow> jsval \<Rightarrow> report_system \<Rightarrow> (nat \<times> nat) segment \<times> report_system" where
  "handleExport now data_type format s =
     (let exportJob = \<lparr>job_id = now, job_type = data_type, job_format = format,
                       status = ''queued'', progress = 0\<rparr>;
          a = length (heap s);
          s1 = s\<lparr>heap := heap s @ [exportJob]\<rparr>
      in case addToExportQueue a s1 of
           Throw e s2 \<Rightarrow> (Raised e, s2)
         | Normal s2 \<Rightarrow> processExportQueue s2)"

subsection \<open>The event loop\<close>

text \<open>
  What can happen to the object: the export form is submitted, the delay of a suspended
  call elapses, \<open>processExportQueue\<close> is called directly (it is a method of the global
  \<open>reportSystem\<close>), the page gains or loses the queue element. Each event runs one
  segment; a segment that ends in a delay is parked in \<open>waiting\<close>.
\<close>

datatype event =
    SubmitExport nat jsval jsval
  | Timer nat
  | CallProcessExportQueue
  | ContainerChange bool

definition park :: "(nat \<times> nat) segment \<times> report_system \<Rightarrow> report_system" where
  "park r =
     (case fst r of
        Await w \<Rightarrow> (snd r)\<lparr>waiting := waiting (snd r) @ [w]\<rparr>
      | Done \<Rightarrow> snd r
      | Raised e \<Rightarrow> snd r)"

fun step :: "event \<Rightarrow> report_system \<Rightarrow> report_system" where
  "step (SubmitExport now data_type format) s = park (handleExport now data_type format s)"
| "step (Timer k) s =
     (if k < length (waiting s) then
        park (processExportQueue_resume (fst (waiting s ! k)) (snd (waiting s ! k))
               (s\<lparr>waiting := take k (waiting s) @ drop (Suc k) (waiting s)\<rparr>))
      else s)"
| "step CallProcessExportQueue s = park (processExportQueue s)"
| "step (ContainerChange b) s = s\<lparr>queueContainer := b\<rparr>"

text \<open>
  The constructor: \<open>this.exportQueue = []; this.isProcessing = false\<close>.
\<close>

definition init :: "bool \<Rightarrow> report_system" where
  "init container =
     \<lparr>heap = [], exportQueue = [], isProcessing = False, queueContainer = container,
      waiting = [], trace = [], points = [[]]\<rparr>"

definition run :: "event list \<Rightarrow> report_system \<Rightarrow> report_system" where
  "run events s = fold step events s"

text \<open>
  Running with no other event in between: \<open>run_timers n\<close> lets the delay of the
  suspended call elapse up to \<open>n\<close> times; \<open>job_run n\<close> does the same for
  \<open>processExportJob\<close> alone.
\<close>

fun run_timers :: "nat \<Rightarrow> report_system \<Rightarrow> report_system" where
  "run_timers 0 s = s"
| "run_timers (Suc n) s = (if waiting s = [] then s else run_timers n (step (Timer 0) s))"


subsection \<open>Notions for the claims\<close>

text \<open>
  The number of jobs with status \<open>processing\<close> among the jobs of a queue; whether
  rendering the queue goes through; the jobs removed by \<open>shift\<close> in a trace, in order;
  a trace without its renderings.
\<close>

definition processing_jobs :: "job list \<Rightarrow> nat" where
  "processing_jobs q = length (filter (\<lambda>job. status job = ''processing'') q)"

definition render_ok :: "report_system \<Rightarrow> bool" where
  "render_ok s = (queueContainer s \<longrightarrow> list_all (\<lambda>job. is_string (job_format job)) (queue_jobs s))"

fun shifted :: "action \<Rightarrow> nat list" where
  "shifted (Shift (Some a)) = [a]"
| "shifted act = []"

definition removals :: "action list \<Rightarrow> nat list" where
  "removals tr = concat (map shifted tr)"

fun is_render :: "action \<Rightarrow> bool" where
  "is_render (Render q) = True"
| "is_render act = False"

definition effects :: "action list \<Rightarrow> action list" where
  "effects tr = filter (\<lambda>act. \<not> is_render act) tr"


text \<open>The stretches of a run between two delays, as the segments compose them.\<close>

definition rendered :: "report_system \<Rightarrow> report_system" where
  "rendered s = (if queueContainer s then emit (Render (queue_jobs s)) s else s)"

definition start_job :: "nat \<Rightarrow> report_system \<Rightarrow> report_system" where
  "start_job job s =
     emit (Delay 500) (rendered (set_progress job 0 (rendered (set_status job ''processing'' s))))"

definition step_job :: "nat \<Rightarrow> nat \<Rightarrow> report_system \<Rightarrow> report_system" where
  "step_job job p s = emit (Delay 500) (rendered (set_progress job p s))"

definition finish_job :: "nat \<Rightarrow> report_system \<Rightarrow> report_system" where
  "finish_job job s = downloadExportResult job (rendered (set_status job ''completed'' s))"

definition fail_job :: "nat \<Rightarrow> report_system \<Rightarrow> report_system" where
  "fail_job job s = set_status job ''failed'' (emit ConsoleError s)"

text \<open>
  The invariant of the reachable states. The addresses in the queue are allocated and
  distinct; every job behind the front of the queue is \<open>queued\<close>; no recorded point has
  two processing jobs; and the control state fits the front job: with no call suspended
  and the flag clear the front job is \<open>queued\<close>, with no call suspended and the flag
  set the front job is \<open>failed\<close>, and a suspended call is the only one, holds the front
  job and has set it to \<open>processing\<close>.
\<close>

definition valid :: "report_system \<Rightarrow> bool" where
  "valid s = ((\<forall>a \<in> set (exportQueue s). a < length (heap s)) \<and> distinct (exportQueue s))"

definition tail_queued :: "report_system \<Rightarrow> bool" where
  "tail_queued s = (\<forall>a \<in> set (tl (exportQueue s)). status (heap s ! a) = ''queued'')"

definition points_ok :: "report_system \<Rightarrow> bool" where
  "points_ok s = (\<forall>q \<in> set (points s). processing_jobs q \<le> 1)"

definition calm :: "report_system \<Rightarrow> bool" where
  "calm s = (valid s \<and> tail_queued s \<and> points_ok s)"

definition control_ok :: "report_system \<Rightarrow> bool" where
  "control_ok s =
     (case waiting s of
        [] \<Rightarrow>
          (if isProcessing s
           then exportQueue s \<noteq> [] \<and> status (heap s ! hd (exportQueue s)) = ''failed''
           else exportQueue s \<noteq> [] \<longrightarrow> status (heap s ! hd (exportQueue s)) = ''queued'')
      | [w] \<Rightarrow>
          isProcessing s \<and> exportQueue s \<noteq> [] \<and> hd (exportQueue s) = fst w
          \<and> status (heap s ! fst w) = ''processing''
      | w # w' # ws \<Rightarrow> False)"

definition queue_inv :: "report_system \<Rightarrow> bool" where
  "queue_inv s = (calm s \<and> control_ok s)"

text \<open>
  The values a job may have: one of the four statuses, and a progress that is a multiple of
  10 up to 100. \<open>jobs_ok\<close> asks it of every job of the store and of the loop variable of
  every suspended call.
\<close>

definition job_ok :: "job \<Rightarrow> bool" where
  "job_ok j = (status j \<in> set [''queued'', ''processing'', ''completed'', ''failed'']
               \<and> progress j mod 10 = 0 \<and> progress j \<le> 100)"

definition heap_ok :: "report_system \<Rightarrow> bool" where
  "heap_ok s = (\<forall>b < length (heap s). job_ok (heap s ! b))"

definition waiting_ok :: "(nat \<times> nat) list \<Rightarrow> bool" where
  "waiting_ok ws = (\<forall>w \<in> set ws. snd w mod 10 = 0 \<and> snd w \<le> 100)"

definition jobs_ok :: "report_system \<Rightarrow> bool" where
  "jobs_ok s = (heap_ok s \<and> waiting_ok (waiting s))"

text \<open>Submissions and runs to evaluate the model on.\<close>

definition csv_job :: event where
  "csv_job = SubmitExport 1 (JString (js ''clients'')) (JString (js ''csv''))"

definition no_format_job :: event where
  "no_format_job = SubmitExport 2 (JString (js ''clients'')) JUndefined"

definition completed_then_failed :: "event list" where
  "completed_then_failed = csv_job # replicate 10 (Timer 0) @ [no_format_job, Timer 0]"

definition failing_export :: "event list" where
  "failing_export = [csv_job, no_format_job, Timer 0]"

section \<open>reports.js: the operations that fetch\<close>

text \<open>
  The part of the page these methods work on. \<open>overlays\<close> are the elements of class
  \<open>loading-overlay\<close> in document order, each with the message it was created with;
  \<open>main_alerts\<close> are the alerts at the top of the \<open>main\<close> element, \<open>None\<close> on a page
  with no such element; \<open>dashboard_loading\<close> says whether \<open>#analytics-dashboard\<close>
  carries the class \<open>loading\<close>, \<open>None\<close> on a page without it; \<open>csrf_token\<close> and
  \<open>report_form\<close> say whether the page has an element named \<open>csrfmiddlewaretoken\<close>
  and the form \<open>#report-form\<close>. \<open>requests\<close> are the calls of \<open>fetch\<close> made so far,
  \<open>console_errors\<close> counts the calls of \<open>console.error\<close>, \<open>renderings\<close> the
  responses that were rendered.
\<close>

datatype loading_message = ParametersLoading | PreviewLoading

datatype alert = ParametersError | PreviewError | DashboardError | TemplateError | TemplateLoaded

datatype url = ParametersUrl jsstring | PreviewUrl | DashboardUrl | TemplateUrl nat | TemplatesUrl

text \<open>
  What the server and the network do with a request: \<open>fetch\<close> rejects, or
  \<open>response.json()\<close> rejects, or the body is parsed; the flag of \<open>Parsed\<close> says
  whether the code that renders the parsed value goes through.
\<close>

datatype response = FetchRejects | JsonRejects | Parsed bool

record page =
  overlays :: "loading_message list"
  main_alerts :: "alert list option"
  dashboard_loading :: "bool option"
  csrf_token :: bool
  report_form :: bool
  requests :: "url list"
  console_errors :: nat
  renderings :: nat

text \<open>
  \<^verbatim>\<open>
  showLoading(message = '...') {
      const loadingElement = document.createElement('div');
      loadingElement.className = 'loading-overlay';
      loadingElement.innerHTML = `... ${message} ...`;
      document.body.appendChild(loadingElement);
  }

  hideLoading() {
      const loadingElement = document.querySelector('.loading-overlay');
      if (loadingElement) {
          loadingElement.remove();
      }
  }
  \<close>
\<close>

definition showLoading :: "loading_message \<Rightarrow> page \<Rightarrow> page" where
  "showLoading message pg = pg\<lparr>overlays := overlays pg @ [message]\<rparr>"

definition hideLoading :: "page \<Rightarrow> page" where
  "hideLoading pg =
     (case overlays pg of
        [] \<Rightarrow> pg
      | loadingElement # others \<Rightarrow> pg\<lparr>overlays := others\<rparr>)"

text \<open>
  \<^verbatim>\<open>
  showDashboardLoading() {
      const dashboard = document.getElementById('analytics-dashboard');
      if (dashboard) {
          dashboard.classList.add('loading');
      }
  }
  \<close>
  and \<open>hideDashboardLoading\<close> likewise with \<open>classList.remove\<close>.
\<close>

definition showDashboardLoading :: "page \<Rightarrow> page" where
  "showDashboardLoading pg =
     (case dashboard_loading pg of
        None \<Rightarrow> pg
      | Some loading \<Rightarrow> pg\<lparr>dashboard_loading := Some True\<rparr>)"

definition hideDashboardLoading :: "page \<Rightarrow> page" where
  "hideDashboardLoading pg =
     (case dashboard_loading pg of
        None \<Rightarrow> pg
      | Some loading \<Rightarrow> pg\<lparr>dashboard_loading := Some False\<rparr>)"

text \<open>
  \<^verbatim>\<open>
  showError(message) {
      const alert = document.createElement('div');
      alert.className = 'alert alert-danger alert-dismissible fade show';
      alert.innerHTML = `${message} ...`;
      document.querySelector('main').prepend(alert);
  }
  \<close>
  and \<open>showSuccess\<close> likewise with \<open>alert-success\<close>. On a page with no \<open>main\<close>
  element \<open>querySelector\<close> gives \<open>null\<close> and the call of \<open>prepend\<close> throws a
  TypeError.
\<close>

definition prepend_alert :: "alert \<Rightarrow> page \<Rightarrow> page completion" where
  "prepend_alert a pg =
     (case main_alerts pg of
        None \<Rightarrow> Throw TypeError pg
      | Some alerts \<Rightarrow> Normal (pg\<lparr>main_alerts := Some (a # alerts)\<rparr>))"

definition showError :: "alert \<Rightarrow> page \<Rightarrow> page completion" where
  "showError message pg = prepend_alert message pg"

definition showSuccess :: "alert \<Rightarrow> page \<Rightarrow> page completion" where
  "showSuccess message pg = prepend_alert message pg"

definition console_error :: "page \<Rightarrow> page" where
  "console_error pg = pg\<lparr>console_errors := Suc (console_errors pg)\<rparr>"

text \<open>
  The three statements every one of these methods has in its \<open>try\<close> block:
  \<^verbatim>\<open>
  const response = await fetch(url, ...);
  const data = await response.json();
  this.render...(data);
  \<close>
  A rejected \<open>fetch\<close> throws a TypeError, a body that is not JSON a SyntaxError.
\<close>

definition fetch_json_render :: "url \<Rightarrow> response \<Rightarrow> page \<Rightarrow> page completion" where
  "fetch_json_render u resp pg =
     (let pg1 = pg\<lparr>requests := requests pg @ [u]\<rparr>
      in case resp of
           FetchRejects \<Rightarrow> Throw TypeError pg1
         | JsonRejects \<Rightarrow> Throw SyntaxError pg1
         | Parsed ok \<Rightarrow>
             if ok then Normal (pg1\<lparr>renderings := Suc (renderings pg1)\<rparr>)
             else Throw TypeError pg1)"

text \<open>
  \<^verbatim>\<open>
  async loadReportParameters(reportType) {
      try {
          this.showLoading('...');
          const response = await fetch(`/reports/api/parameters/${reportType}/`);
          const parameters = await response.json();
          this.renderParameters(parameters);
          this.hideLoading();
      } catch (error) {
          console.error('...', error);
          this.showError('...');
          this.hideLoading();
      }
  }
  \<close>
  An exception thrown inside the \<open>catch\<close> block leaves the method.
\<close>

definition loadReportParameters :: "jsstring \<Rightarrow> response \<Rightarrow> page \<Rightarrow> page completion" where
  "loadReportParameters reportType resp pg =
     (case fetch_json_render (ParametersUrl reportType) resp (showLoading ParametersLoading pg) of
        Normal pg1 \<Rightarrow> Normal (hideLoading pg1)
      | Throw error pg1 \<Rightarrow>
          (case showError ParametersError (console_error pg1) of
             Throw e pg2 \<Rightarrow> Throw e pg2
           | Normal pg2 \<Rightarrow> Normal (hideLoading pg2)))"

text \<open>
  \<^verbatim>\<open>
  async previewReport() {
      const formData = this.getFormData('report-form');
      try {
          this.showLoading('...');
          const response = await fetch('/reports/api/preview/', {
              method: 'POST',
              headers: { 'Content-Type': 'application/json', 'X-CSRFToken': this.getCsrfToken() },
              body: JSON.stringify(formData)
          });
          const previewData = await response.json();
          this.renderPreview(previewData);
          this.hideLoading();
      } catch (error) {
          console.error('...', error);
          this.showError('...');
          this.hideLoading();
      }
  }

  getCsrfToken() {
      return document.querySelector('[name=csrfmiddlewaretoken]').value;
  }
  \<close>
  \<open>getFormData\<close> builds a \<open>FormData\<close> from the form, which throws a TypeError when
  the page has no such form, before the \<open>try\<close>; \<open>getCsrfToken\<close> throws a TypeError when
  the page has no token, inside the \<open>try\<close> and before the request is made.
\<close>

definition previewReport :: "response \<Rightarrow> page \<Rightarrow> page completion" where
  "previewReport resp pg =
     (if \<not> report_form pg then Throw TypeError pg
      else
        let pg0 = showLoading PreviewLoading pg
        in case (if csrf_token pg0 then fetch_json_render PreviewUrl resp pg0
                 else Throw TypeError pg0) of
             Normal pg1 \<Rightarrow> Normal (hideLoading pg1)
           | Throw error pg1 \<Rightarrow>
               (case showError PreviewError (console_error pg1) of
                  Throw e pg2 \<Rightarrow> Throw e pg2
                | Normal pg2 \<Rightarrow> Normal (hideLoading pg2)))"

text \<open>
  \<^verbatim>\<open>
  async loadDashboardData(filters = {}) {
      try {
          this.showDashboardLoading();
          const response = await fetch('/reports/api/dashboard/', {
              method: 'POST',
              headers: { 'Content-Type': 'application/json', 'X-CSRFToken': this.getCsrfToken() },
              body: JSON.stringify(filters)
          });
          const dashboardData = await response.json();
          this.renderDashboard(dashboardData);
          this.hideDashboardLoading();
      } catch (error) {
          console.error('...', error);
          this.showError('...');
          this.hideDashboardLoading();
      }
  }
  \<close>
\<close>

definition loadDashboardData :: "response \<Rightarrow> page \<Rightarrow> page completion" where
  "loadDashboardData resp pg =
     (let pg0 = showDashboardLoading pg
      in case (if csrf_token pg0 then fetch_json_render DashboardUrl resp pg0
               else Throw TypeError pg0) of
           Normal pg1 \<Rightarrow> Normal (hideDashboardLoading pg1)
         | Throw error pg1 \<Rightarrow>
             (case showError DashboardError (console_error pg1) of
                Throw e pg2 \<Rightarrow> Throw e pg2
              | Normal pg2 \<Rightarrow> Normal (hideDashboardLoading pg2)))"

text \<open>
  \<^verbatim>\<open>
  async loadTemplate(templateId) {
      try {
          const response = await fetch(`/reports/api/templates/${templateId}/`);
          const template = await response.json();
          this.fillFormWithTemplate(template);
          this.showSuccess('...');
      } catch (error) {
          console.error('...', error);
          this.showError('...');
      }
  }

  async loadReportTemplates() {
      try {
          const response = await fetch('/reports/api/templates/');
          const templates = await response.json();
          this.renderTemplates(templates);
      } catch (error) {
          console.error('...', error);
      }
  }
  \<close>
\<close>

definition loadTemplate :: "nat \<Rightarrow> response \<Rightarrow> page \<Rightarrow> page completion" where
  "loadTemplate templateId resp pg =
     (case (case fetch_json_render (TemplateUrl templateId) resp pg of
              Normal pg1 \<Rightarrow> showSuccess TemplateLoaded pg1
            | Throw e pg1 \<Rightarrow> Throw e pg1) of
        Normal pg2 \<Rightarrow> Normal pg2
      | Throw error pg2 \<Rightarrow> showError TemplateError (console_error pg2))"

definition loadReportTemplates :: "response \<Rightarrow> page \<Rightarrow> page completion" where
  "loadReportTemplates resp pg =
     (case fetch_json_render TemplatesUrl resp pg of
        Normal pg1 \<Rightarrow> Normal pg1
      | Throw error pg1 \<Rightarrow> Normal (console_error pg1))"

text \<open>The fetch or the parsing of its body throws; a page with everything these methods look up.\<close>

definition rejects :: "response \<Rightarrow> bool" where
  "rejects resp = (resp = FetchRejects \<or> resp = JsonRejects)"


section \<open>Properties of the notification badge\<close>

lemma digit_val_digit_char: "d < 10 \<Longrightarrow> digit_val (digit_char d) = d"
  by (simp add: digit_val_def digit_char_def)

lemma nat_of_string_snoc: "nat_of_string (s @ [c]) = 10 * nat_of_string s + digit_val c"
  by (simp add: nat_of_string_def)

lemma nat_of_string_of_nat: "nat_of_string (string_of_nat n) = n"
proof (induction n rule: string_of_nat.induct)
  case (1 n)
  show ?case
  proof (cases "n < 10")
    case True
    then show ?thesis
      by (simp add: string_of_nat.simps [of n] nat_of_string_def digit_val_digit_char)
  next
    case False
    with 1 have "nat_of_string (string_of_nat (n div 10)) = n div 10" by simp
    with False show ?thesis
      by (simp add: string_of_nat.simps [of n] nat_of_string_snoc digit_val_digit_char)
  qed
qed

text \<open>
  Claim C9. When a badge element exists: for every count above 99 the badge text becomes
  \<open>99+\<close>; for every count from 1 to 99 the text is the decimal string of the count
  (the string that reads back as the count) and the badge is made visible; for a count
  of 0 or less the class \<open>d-none\<close> is added and the text is left as it was.
\<close>

theorem updateNotificationCount_caps_at_99:
  "(99 < cnt \<longrightarrow>
      (\<exists>b'. updateNotificationCount cnt (Some b) = Some b' \<and> textContent b' = ''99+''
            \<and> badge_visible b'))
   \<and> (1 \<le> cnt \<and> cnt \<le> 99 \<longrightarrow>
      (\<exists>b'. updateNotificationCount cnt (Some b) = Some b'
            \<and> textContent b' = string_of_nat (nat cnt)
            \<and> int (nat_of_string (textContent b')) = cnt
            \<and> badge_visible b'))
   \<and> (cnt \<le> 0 \<longrightarrow>
      (\<exists>b'. updateNotificationCount cnt (Some b) = Some b'
            \<and> \<not> badge_visible b' \<and> textContent b' = textContent b))"
  by (simp add: updateNotificationCount_def badge_visible_def nat_of_string_of_nat)

theorem updateNotificationCount_caps_at_99_witness:
  "updateNotificationCount 100 (Some \<lparr>textContent = ''7'', classList = {''d-none''}\<rparr>)
     = Some \<lparr>textContent = ''99+'', classList = {}\<rparr>
   \<and> updateNotificationCount 42 (Some \<lparr>textContent = ''7'', classList = {''d-none''}\<rparr>)
     = Some \<lparr>textContent = ''42'', classList = {}\<rparr>
   \<and> updateNotificationCount 0 (Some \<lparr>textContent = ''7'', classList = {}\<rparr>)
     = Some \<lparr>textContent = ''7'', classList = {''d-none''}\<rparr>"
proof -
  let ?b = "\<lparr>textContent = ''7'', classList = {''d-none''}\<rparr>"
  let ?c = "\<lparr>textContent = ''7'', classList = {}\<rparr>"
  have s42: "string_of_nat 42 = ''42''"
    by code_simp
  from updateNotificationCount_caps_at_99 [of 100 ?b]
  have a: "updateNotificationCount 100 (Some ?b) = Some \<lparr>textContent = ''99+'', classList = {}\<rparr>"
    by (auto simp: updateNotificationCount_def)
  from updateNotificationCount_caps_at_99 [of 42 ?b]
  have b: "updateNotificationCount 42 (Some ?b) = Some \<lparr>textContent = ''42'', classList = {}\<rparr>"
    by (auto simp: updateNotificationCount_def s42)
  from updateNotificationCount_caps_at_99 [of 0 ?c]
  have c: "updateNotificationCount 0 (Some ?c) = Some \<lparr>textContent = ''7'', classList = {''d-none''}\<rparr>"
    by (auto simp: updateNotificationCount_def)
  from a b c show ?thesis by simp
qed

section \<open>Properties of the table filter\<close>

lemma starts_with_iff: "starts_with hay needle \<longleftrightarrow> (\<exists>q. hay = needle @ q)"
  by (induction hay needle rule: starts_with.induct) auto

lemma includes_iff: "str_includes hay needle \<longleftrightarrow> (\<exists>p q. hay = p @ needle @ q)"
proof (induction hay)
  case Nil
  then show ?case by (simp add: starts_with_iff)
next
  case (Cons t ts)
  show ?case
  proof
    assume "str_includes (t # ts) needle"
    then consider "starts_with (t # ts) needle" | "str_includes ts needle" by auto
    then show "\<exists>p q. t # ts = p @ needle @ q"
    proof cases
      case 1
      then obtain q where "t # ts = needle @ q" by (auto simp: starts_with_iff)
      then have "t # ts = [] @ needle @ q" by simp
      then show ?thesis by blast
    next
      case 2
      with Cons obtain p q where "ts = p @ needle @ q" by auto
      then have "t # ts = (t # p) @ needle @ q" by simp
      then show ?thesis by blast
    qed
  next
    assume "\<exists>p q. t # ts = p @ needle @ q"
    then obtain p q where pq: "t # ts = p @ needle @ q" by blast
    show "str_includes (t # ts) needle"
    proof (cases p)
      case Nil
      with pq have "starts_with (t # ts) needle" by (auto simp: starts_with_iff)
      then show ?thesis by simp
    next
      case (Cons a p')
      with pq have "ts = p' @ needle @ q" by simp
      with Cons.IH have "str_includes ts needle" by blast
      then show ?thesis by simp
    qed
  qed
qed

lemma includes_empty: "str_includes hay []"
  by (cases hay) simp_all

text \<open>
  Claim C6. With search value \<open>s\<close>, \<open>filterTable\<close> keeps the rows of the table in
  place and changes only their \<open>display\<close>: a row is visible exactly when its text,
  lower-cased, contains \<open>s\<close> lower-cased as a contiguous substring; when the search
  value is empty (and lower-casing the empty string gives the empty string, as it does
  in JavaScript) every row is visible.
\<close>

theorem filterTable_case_insensitive_substring:
  "\<exists>rows'. filterTable lc s (Some rows) = Inr rows'
     \<and> length rows' = length rows
     \<and> (\<forall>i < length rows.
          tr_text (rows' ! i) = tr_text (rows ! i)
          \<and> tr_cells (rows' ! i) = tr_cells (rows ! i)
          \<and> (row_visible (rows' ! i) \<longleftrightarrow> (\<exists>p q. lc (tr_text (rows ! i)) = p @ lc s @ q))
          \<and> (\<not> row_visible (rows' ! i) \<longrightarrow> tr_display (rows' ! i) = ''none''))
     \<and> (s = [] \<and> lc [] = [] \<longrightarrow> (\<forall>r \<in> set rows'. row_visible r))"
  by (auto simp: filterTable_def Let_def row_visible_def includes_iff includes_empty)

theorem filterTable_case_insensitive_substring_witness:
  "filterTable ascii_lower (js ''aB'')
     (Some [\<lparr>tr_text = js ''xAbY'', tr_cells = [], tr_display = ''none''\<rparr>,
            \<lparr>tr_text = js ''ba'', tr_cells = [], tr_display = ''''\<rparr>])
   = Inr [\<lparr>tr_text = js ''xAbY'', tr_cells = [], tr_display = ''''\<rparr>,
          \<lparr>tr_text = js ''ba'', tr_cells = [], tr_display = ''none''\<rparr>]
   \<and> filterTable ascii_lower []
     (Some [\<lparr>tr_text = js ''xAbY'', tr_cells = [], tr_display = ''none''\<rparr>])
   = Inr [\<lparr>tr_text = js ''xAbY'', tr_cells = [], tr_display = ''''\<rparr>]"
proof -
  let ?r1 = "\<lparr>tr_text = js ''xAbY'', tr_cells = [], tr_display = ''none''\<rparr>"
  let ?r2 = "\<lparr>tr_text = js ''ba'', tr_cells = [], tr_display = ''''\<rparr>"
  have lc: "ascii_lower [] = []" by (simp add: ascii_lower_def)
  from filterTable_case_insensitive_substring [of ascii_lower "js ''aB''" "[?r1, ?r2]"]
  have a: "filterTable ascii_lower (js ''aB'') (Some [?r1, ?r2])
           = Inr [?r1\<lparr>tr_display := ''''\<rparr>, ?r2\<lparr>tr_display := ''none''\<rparr>]"
    by (simp add: filterTable_def Let_def js_def ascii_lower_def)
  from filterTable_case_insensitive_substring [of ascii_lower "[]" "[?r1]"] lc
  have b: "filterTable ascii_lower [] (Some [?r1]) = Inr [?r1\<lparr>tr_display := ''''\<rparr>]"
    by (auto simp: filterTable_def Let_def row_visible_def)
  from a b show ?thesis by simp
qed

section \<open>Properties of the table sort\<close>

lemma insert_by_total:
  "\<forall>y \<in> set ys. \<exists>v. c x y = Inr v \<Longrightarrow>
   \<exists>zs. insert_by c x ys = Inr zs \<and> mset zs = add_mset x (mset ys)"
proof (induction ys)
  case Nil
  then show ?case by simp
next
  case (Cons y ys)
  then obtain v where v: "c x y = Inr v" by auto
  from Cons obtain zs where "insert_by c x ys = Inr zs" "mset zs = add_mset x (mset ys)" by auto
  with v show ?case by auto
qed

lemma sort_by_total:
  "\<forall>x \<in> set xs. \<forall>y \<in> set xs. \<exists>v. c x y = Inr v \<Longrightarrow>
   \<exists>zs. sort_by c xs = Inr zs \<and> mset zs = mset xs"
proof (induction xs)
  case Nil
  then show ?case by simp
next
  case (Cons x xs)
  then obtain ys where ys: "sort_by c xs = Inr ys" "mset ys = mset xs" by auto
  then have "set ys = set xs" by (metis set_mset_mset)
  with Cons.prems have "\<forall>y \<in> set ys. \<exists>v. c x y = Inr v" by auto
  then obtain zs where "insert_by c x ys = Inr zs" "mset zs = add_mset x (mset ys)"
    using insert_by_total [of ys c x] by blast
  with ys show ?case by auto
qed

lemma insert_by_sorted:
  assumes lin: "\<forall>a b. \<not> R a b \<longrightarrow> R b a"
    and trans: "\<forall>a b d. R a b \<and> R b d \<longrightarrow> R a d"
    and dec: "\<forall>a b v. c a b = Inr v \<longrightarrow> (v \<le> 0) = R a b"
  shows "\<forall>y \<in> set ys. \<exists>v. c x y = Inr v \<Longrightarrow> sorted_wrt R ys \<Longrightarrow>
         insert_by c x ys = Inr zs \<Longrightarrow> sorted_wrt R zs"
proof (induction ys arbitrary: zs)
  case Nil
  then show ?case by auto
next
  case (Cons y ys)
  from Cons.prems(1) obtain v where v: "c x y = Inr v" by auto
  from Cons.prems(2) have sys: "sorted_wrt R ys" and yall: "\<forall>z \<in> set ys. R y z" by simp_all
  show ?case
  proof (cases "v \<le> 0")
    case True
    with v dec have xy: "R x y" by blast
    have "\<forall>z \<in> set ys. R x z"
    proof
      fix z assume "z \<in> set ys"
      with yall have "R y z" by blast
      with xy trans show "R x z" by blast
    qed
    with xy have xall: "\<forall>z \<in> set (y # ys). R x z" by simp
    from True v Cons.prems(3) have "zs = x # y # ys" by simp
    with xall Cons.prems(2) show ?thesis by simp
  next
    case False
    with v dec have "\<not> R x y" by blast
    with lin have yx: "R y x" by blast
    from False v Cons.prems(3) obtain zs' where zs': "insert_by c x ys = Inr zs'" "zs = y # zs'"
      by (auto split: sum.splits)
    have tot': "\<forall>y \<in> set ys. \<exists>v. c x y = Inr v"
      using Cons.prems(1) by simp
    from Cons.IH [OF tot' sys zs'(1)] have s: "sorted_wrt R zs'" .
    from insert_by_total [of ys c x] tot' zs'(1) have "mset zs' = add_mset x (mset ys)" by simp
    then have "set zs' = insert x (set ys)" by (metis set_mset_add_mset_insert set_mset_mset)
    with yx yall have "\<forall>z \<in> set zs'. R y z" by simp
    with s zs' show ?thesis by simp
  qed
qed

lemma sort_by_sorted:
  assumes lin: "\<forall>a b. \<not> R a b \<longrightarrow> R b a"
    and trans: "\<forall>a b d. R a b \<and> R b d \<longrightarrow> R a d"
    and dec: "\<forall>a b v. c a b = Inr v \<longrightarrow> (v \<le> 0) = R a b"
  shows "\<forall>x \<in> set xs. \<forall>y \<in> set xs. \<exists>v. c x y = Inr v \<Longrightarrow>
         sort_by c xs = Inr zs \<Longrightarrow> sorted_wrt R zs"
proof (induction xs arbitrary: zs)
  case Nil
  then show ?case by auto
next
  case (Cons x xs)
  have tot': "\<forall>a \<in> set xs. \<forall>b \<in> set xs. \<exists>v. c a b = Inr v"
    using Cons.prems(1) by auto
  from sort_by_total [of xs c] tot' obtain ys where ys: "sort_by c xs = Inr ys" "mset ys = mset xs"
    by blast
  then have set: "set ys = set xs" by (metis set_mset_mset)
  from Cons.IH [OF tot' ys(1)] have s: "sorted_wrt R ys" .
  from ys Cons.prems(2) have ins: "insert_by c x ys = Inr zs" by simp
  have tot2: "\<forall>y \<in> set ys. \<exists>v. c x y = Inr v"
    using Cons.prems(1) set by auto
  from insert_by_sorted [OF lin trans dec tot2 s ins] show ?case .
qed


lemma compare_rows_defined:
  "ci < length (tr_cells a) \<Longrightarrow> ci < length (tr_cells b) \<Longrightarrow>
   compare_rows cmp ci isAsc a b =
     Inr (if isAsc then cmp (column_key ci b) (column_key ci a)
          else cmp (column_key ci a) (column_key ci b))"
  by (simp add: compare_rows_def cell_text_def column_key_def)

lemma compare_rows_decides:
  "compare_rows cmp ci isAsc a b = Inr v \<Longrightarrow>
   v = (if isAsc then cmp (column_key ci b) (column_key ci a)
        else cmp (column_key ci a) (column_key ci b))"
  by (auto simp: compare_rows_def cell_text_def column_key_def split: if_splits sum.splits)

lemma row_le_linear:
  assumes "consistent_comparator cmp"
  shows "\<not> row_le cmp ci isAsc a b \<Longrightarrow> row_le cmp ci isAsc b a"
proof -
  from assms have "\<And>x y. cmp x y \<le> 0 \<or> cmp y x \<le> 0"
    unfolding consistent_comparator_def by blast
  from this [of "column_key ci a" "column_key ci b"]
  show "\<not> row_le cmp ci isAsc a b \<Longrightarrow> row_le cmp ci isAsc b a"
    by (cases isAsc) (simp_all add: row_le_def)
qed

lemma row_le_trans:
  assumes "consistent_comparator cmp"
  shows "row_le cmp ci isAsc a b \<Longrightarrow> row_le cmp ci isAsc b d \<Longrightarrow> row_le cmp ci isAsc a d"
proof -
  from assms have t: "\<And>x y z. cmp x y \<le> 0 \<Longrightarrow> cmp y z \<le> 0 \<Longrightarrow> cmp x z \<le> 0"
    unfolding consistent_comparator_def by blast
  show "row_le cmp ci isAsc a b \<Longrightarrow> row_le cmp ci isAsc b d \<Longrightarrow> row_le cmp ci isAsc a d"
  proof (cases isAsc)
    case True
    assume "row_le cmp ci isAsc a b" "row_le cmp ci isAsc b d"
    with True have "cmp (column_key ci d) (column_key ci b) \<le> 0"
      "cmp (column_key ci b) (column_key ci a) \<le> 0" by (simp_all add: row_le_def)
    from t [OF this] True show ?thesis by (simp add: row_le_def)
  next
    case False
    assume "row_le cmp ci isAsc a b" "row_le cmp ci isAsc b d"
    with False have "cmp (column_key ci a) (column_key ci b) \<le> 0"
      "cmp (column_key ci b) (column_key ci d) \<le> 0" by (simp_all add: row_le_def)
    from t [OF this] False show ?thesis by (simp add: row_le_def)
  qed
qed

lemma compare_rows_row_le:
  "compare_rows cmp ci isAsc a b = Inr v \<Longrightarrow> (v \<le> 0) = row_le cmp ci isAsc a b"
  by (drule compare_rows_decides) (simp add: row_le_def)

lemma sort_rows:
  assumes cons: "consistent_comparator cmp"
    and cells: "\<forall>r \<in> set rows. ci < length (tr_cells r)"
  shows "\<exists>zs. sort_by (compare_rows cmp ci isAsc) rows = Inr zs \<and> mset zs = mset rows
           \<and> (if isAsc then descending cmp ci zs else ascending cmp ci zs)"
proof -
  let ?c = "compare_rows cmp ci isAsc"
  let ?R = "row_le cmp ci isAsc"
  from cells have tot: "\<forall>x \<in> set rows. \<forall>y \<in> set rows. \<exists>v. ?c x y = Inr v"
    by (simp add: compare_rows_defined)
  from sort_by_total [of rows ?c] tot obtain zs
    where zs: "sort_by ?c rows = Inr zs" "mset zs = mset rows" by blast
  have lin: "\<forall>a b. \<not> ?R a b \<longrightarrow> ?R b a"
    using row_le_linear [OF cons] by blast
  have tr: "\<forall>a b d. ?R a b \<and> ?R b d \<longrightarrow> ?R a d"
    using row_le_trans [OF cons] by blast
  have dec: "\<forall>a b v. ?c a b = Inr v \<longrightarrow> (v \<le> 0) = ?R a b"
    using compare_rows_row_le by blast
  from sort_by_sorted [of ?R ?c rows zs, OF lin tr dec tot zs(1)]
  have srt: "sorted_wrt ?R zs" .
  have "if isAsc then descending cmp ci zs else ascending cmp ci zs"
  proof (cases isAsc)
    case True
    then have "?R = (\<lambda>a b. cmp (column_key ci b) (column_key ci a) \<le> 0)"
      by (simp add: row_le_def fun_eq_iff)
    with srt True show ?thesis by (simp add: descending_def)
  next
    case False
    then have "?R = (\<lambda>a b. cmp (column_key ci a) (column_key ci b) \<le> 0)"
      by (simp add: row_le_def fun_eq_iff)
    with srt False show ?thesis by (simp add: ascending_def)
  qed
  with zs show ?thesis by blast
qed

lemma sortTable_once:
  assumes cons: "consistent_comparator cmp"
    and h: "h < length (headers t)"
    and cells: "\<forall>r \<in> set (body t). th_index (headers t ! h) < length (tr_cells r)"
  shows "\<exists>t'. sortTable cmp h t = Normal t'
           \<and> mset (body t') = mset (body t)
           \<and> length (headers t') = length (headers t)
           \<and> th_index (headers t' ! h) = th_index (headers t ! h)
           \<and> (has_class ''sort-asc'' h t' \<longleftrightarrow> \<not> has_class ''sort-asc'' h t)
           \<and> (has_class ''sort-desc'' h t' \<longleftrightarrow> has_class ''sort-asc'' h t)
           \<and> (if has_class ''sort-asc'' h t
               then descending cmp (th_index (headers t ! h)) (body t')
               else ascending cmp (th_index (headers t ! h)) (body t'))"
proof -
  let ?ci = "th_index (headers t ! h)"
  let ?asc = "''sort-asc'' \<in> th_classes (headers t ! h)"
  from sort_rows [OF cons cells, of ?asc] obtain zs
    where zs: "sort_by (compare_rows cmp ?ci ?asc) (body t) = Inr zs" "mset zs = mset (body t)"
      "if ?asc then descending cmp ?ci zs else ascending cmp ?ci zs" by blast
  from h zs show ?thesis
    by (simp add: sortTable_def Let_def has_class_def toggle_def)
qed

lemma sortTable_twice:
  assumes cons: "consistent_comparator cmp"
    and h: "h < length (headers t)"
    and cells: "\<forall>r \<in> set (body t). th_index (headers t ! h) < length (tr_cells r)"
  shows "\<exists>t1 t2. sortTable cmp h t = Normal t1 \<and> sortTable cmp h t1 = Normal t2
           \<and> mset (body t1) = mset (body t) \<and> mset (body t2) = mset (body t)
           \<and> (has_class ''sort-asc'' h t1 \<longleftrightarrow> \<not> has_class ''sort-asc'' h t)
           \<and> (has_class ''sort-desc'' h t1 \<longleftrightarrow> has_class ''sort-asc'' h t)
           \<and> (has_class ''sort-asc'' h t2 \<longleftrightarrow> has_class ''sort-asc'' h t)
           \<and> (has_class ''sort-desc'' h t2 \<longleftrightarrow> \<not> has_class ''sort-asc'' h t)
           \<and> (if has_class ''sort-asc'' h t
               then descending cmp (th_index (headers t ! h)) (body t1)
                    \<and> ascending cmp (th_index (headers t ! h)) (body t2)
               else ascending cmp (th_index (headers t ! h)) (body t1)
                    \<and> descending cmp (th_index (headers t ! h)) (body t2))"
proof -
  let ?ci = "th_index (headers t ! h)"
  from sortTable_once [OF cons h cells] obtain t1 where t1:
    "sortTable cmp h t = Normal t1" "mset (body t1) = mset (body t)"
    "length (headers t1) = length (headers t)" "th_index (headers t1 ! h) = ?ci"
    "has_class ''sort-asc'' h t1 \<longleftrightarrow> \<not> has_class ''sort-asc'' h t"
    "has_class ''sort-desc'' h t1 \<longleftrightarrow> has_class ''sort-asc'' h t"
    "if has_class ''sort-asc'' h t then descending cmp ?ci (body t1)
     else ascending cmp ?ci (body t1)" by blast
  from t1(2) have "set (body t1) = set (body t)" by (metis set_mset_mset)
  with cells t1(4) have cells1: "\<forall>r \<in> set (body t1). th_index (headers t1 ! h) < length (tr_cells r)"
    by simp
  from h t1(3) have h1: "h < length (headers t1)" by simp
  from sortTable_once [OF cons h1 cells1] obtain t2 where t2:
    "sortTable cmp h t1 = Normal t2" "mset (body t2) = mset (body t1)"
    "has_class ''sort-asc'' h t2 \<longleftrightarrow> \<not> has_class ''sort-asc'' h t1"
    "has_class ''sort-desc'' h t2 \<longleftrightarrow> has_class ''sort-asc'' h t1"
    "if has_class ''sort-asc'' h t1 then descending cmp (th_index (headers t1 ! h)) (body t2)
     else ascending cmp (th_index (headers t1 ! h)) (body t2)" by blast
  show ?thesis
  proof (cases "has_class ''sort-asc'' h t")
    case True
    with t1 t2 show ?thesis by simp
  next
    case False
    with t1 t2 show ?thesis by simp
  qed
qed





lemma sorted_wrt_unique:
  assumes anti: "\<forall>a \<in> set xs. \<forall>b \<in> set xs. R a b \<and> R b a \<longrightarrow> a = b"
  shows "sorted_wrt R xs \<Longrightarrow> sorted_wrt R ys \<Longrightarrow> mset xs = mset ys \<Longrightarrow> xs = ys"
  using anti
proof (induction xs arbitrary: ys)
  case Nil
  then show ?case by simp
next
  case (Cons x xs)
  from Cons.prems(3) obtain y ys' where ys: "ys = y # ys'" by (cases ys) auto
  from Cons.prems(3) have sets: "set (x # xs) = set ys" by (metis set_mset_mset)
  have "x = y"
  proof (rule ccontr)
    assume ne: "x \<noteq> y"
    from sets ys ne have "y \<in> set xs" by auto
    with Cons.prems(1) have xy: "R x y" by simp
    from sets ys ne have "x \<in> set ys'" by auto
    with Cons.prems(2) ys have yx: "R y x" by simp
    from sets ys have "y \<in> set (x # xs)" by simp
    with Cons.prems(4) xy yx have "x = y" by auto
    with ne show False by simp
  qed
  with Cons.prems(3) ys have m: "mset xs = mset ys'" by simp
  from Cons.prems(4) have anti': "\<forall>a \<in> set xs. \<forall>b \<in> set xs. R a b \<and> R b a \<longrightarrow> a = b" by simp
  from Cons.prems(1) have s1: "sorted_wrt R xs" by simp
  from Cons.prems(2) ys have s2: "sorted_wrt R ys'" by simp
  from Cons.IH [OF s1 s2 m anti'] \<open>x = y\<close> ys show ?case by simp
qed

lemmas demo_defs = sortTable_def Let_def compare_rows_def cell_text_def trim_def
      is_space_def js_def toggle_def



text \<open>
  The sort is stable: rows whose keys compare equal keep their order in both directions,
  so the second order is the mirror image of the first only when no two rows tie.
\<close>

lemma sortTable_ties_keep_order:
  "\<exists>t1 t2. sortTable codeunit_compare 0 ties_table = Normal t1
     \<and> sortTable codeunit_compare 0 t1 = Normal t2
     \<and> body t1 = body ties_table \<and> body t2 = body ties_table"
  by (simp add: ties_table_def demo_defs)

lemma sortTable_twice_reverses_without_ties:
  assumes cons: "consistent_comparator cmp"
    and h: "h < length (headers t)"
    and cells: "\<forall>r \<in> set (body t). th_index (headers t ! h) < length (tr_cells r)"
    and noties: "\<forall>a \<in> set (body t). \<forall>b \<in> set (body t).
        cmp (column_key (th_index (headers t ! h)) a) (column_key (th_index (headers t ! h)) b) \<le> 0
        \<and> cmp (column_key (th_index (headers t ! h)) b) (column_key (th_index (headers t ! h)) a) \<le> 0
        \<longrightarrow> a = b"
  shows "\<exists>t1 t2. sortTable cmp h t = Normal t1 \<and> sortTable cmp h t1 = Normal t2
           \<and> body t2 = rev (body t1)"
proof -
  let ?ci = "th_index (headers t ! h)"
  let ?up = "\<lambda>a b. cmp (column_key ?ci a) (column_key ?ci b) \<le> 0"
  let ?down = "\<lambda>a b. cmp (column_key ?ci b) (column_key ?ci a) \<le> 0"
  from sortTable_twice [OF cons h cells] obtain t1 t2 where r:
    "sortTable cmp h t = Normal t1" "sortTable cmp h t1 = Normal t2"
    "mset (body t1) = mset (body t)" "mset (body t2) = mset (body t)"
    "if has_class ''sort-asc'' h t
     then descending cmp ?ci (body t1) \<and> ascending cmp ?ci (body t2)
     else ascending cmp ?ci (body t1) \<and> descending cmp ?ci (body t2)"
    by blast
  from r(3) have s1: "set (body t1) = set (body t)" by (metis set_mset_mset)
  from r(4) have s2: "set (body t2) = set (body t)" by (metis set_mset_mset)
  from r(3) r(4) have m: "mset (body t2) = mset (rev (body t1))" by simp
  have "body t2 = rev (body t1)"
  proof (cases "has_class ''sort-asc'' h t")
    case True
    with r(5) have d1: "sorted_wrt ?down (body t1)" and a2: "sorted_wrt ?up (body t2)"
      by (simp_all add: descending_def ascending_def)
    from d1 have "sorted_wrt ?up (rev (body t1))" by (simp add: sorted_wrt_rev)
    moreover from noties s2 have "\<forall>a \<in> set (body t2). \<forall>b \<in> set (body t2). ?up a b \<and> ?up b a \<longrightarrow> a = b"
      by simp
    ultimately show ?thesis using a2 m sorted_wrt_unique [of "body t2" ?up "rev (body t1)"]
      by blast
  next
    case False
    with r(5) have a1: "sorted_wrt ?up (body t1)" and d2: "sorted_wrt ?down (body t2)"
      by (simp_all add: descending_def ascending_def)
    from a1 have "sorted_wrt ?down (rev (body t1))" by (simp add: sorted_wrt_rev)
    moreover from noties s2 have "\<forall>a \<in> set (body t2). \<forall>b \<in> set (body t2). ?down a b \<and> ?down b a \<longrightarrow> a = b"
      by auto
    ultimately show ?thesis using d2 m sorted_wrt_unique [of "body t2" ?down "rev (body t1)"]
      by blast
  qed
  with r show ?thesis by blast
qed



section \<open>Properties of the form validation\<close>










lemma isValidEmail_examples:
  "isValidEmail (js ''a.b@c.d.e'')" "\<not> isValidEmail (js ''a@b@c.d'')" "\<not> isValidEmail (js ''a@.c'')"
  by (simp_all add: isValidEmail_def email_re_def Plus_def js_def not_space_or_at_def is_space_def)




lemma length_classList_update [simp]:
  "length (controls (classList_update i f fm)) = length (controls fm)"
  by (simp add: classList_update_def)

lemma attrs_classList_update [simp]:
  "map attrs (controls (classList_update i f fm)) = map attrs (controls fm)"
proof (rule nth_equalityI)
  show "length (map attrs (controls (classList_update i f fm))) = length (map attrs (controls fm))"
    by simp
next
  fix j assume "j < length (map attrs (controls (classList_update i f fm)))"
  then have "j < length (controls fm)" by simp
  then show "map attrs (controls (classList_update i f fm)) ! j = map attrs (controls fm) ! j"
    by (cases "j = i") (simp_all add: classList_update_def attrs_def)
qed

lemma value_classList_update [simp]:
  "f_value (controls (classList_update i f fm) ! j) = f_value (controls fm ! j)"
proof (cases "i < length (controls fm)")
  case True
  then show ?thesis by (simp add: classList_update_def nth_list_update)
next
  case False
  then show ?thesis by (simp add: classList_update_def list_update_beyond)
qed

lemma classes_classList_update_other [simp]:
  "j \<noteq> i \<Longrightarrow> f_classes (controls (classList_update i f fm) ! j) = f_classes (controls fm ! j)"
  by (simp add: classList_update_def)

lemma classes_classList_update_same [simp]:
  "i < length (controls fm) \<Longrightarrow>
   f_classes (controls (classList_update i f fm) ! i) = f (f_classes (controls fm ! i))"
  by (simp add: classList_update_def)

lemma feedback_classList_update [simp]:
  "feedback (classList_update i f fm) = feedback fm"
  by (simp add: classList_update_def)

lemma fields_showFieldError: "controls (showFieldError i msg fm) = controls fm"
  by (simp add: showFieldError_def Let_def)

lemma fields_remove_errorDiv: "controls (remove_errorDiv i fm) = controls fm"
  by (simp add: remove_errorDiv_def Let_def split: list.splits)

lemma appended_classList_update: "appended (classList_update i f fm) = appended fm"
  by (simp add: classList_update_def)

lemma appended_remove_errorDiv: "appended (remove_errorDiv i fm) = appended fm"
  by (simp add: remove_errorDiv_def Let_def split: list.splits)

lemma appended_showFieldError: "appended (showFieldError i msg fm) = appended fm @ [(i, msg)]"
  by (simp add: showFieldError_def Let_def)

lemmas form_simps = fields_showFieldError fields_remove_errorDiv
  appended_classList_update appended_remove_errorDiv appended_showFieldError

lemma attrs_update_classes: "attrs (f\<lparr>f_classes := c\<rparr>) = attrs f"
  by (simp add: attrs_def)

lemma step_attrs:
  "map attrs (controls (fst (check_step clean bad msg i st))) = map attrs (controls (fst st))"
  by (simp add: check_step_def Let_def form_simps)










lemma fold_attrs:
  "map attrs (controls (fst (fold (check_step clean bad msg) is st))) = map attrs (controls (fst st))"
  by (induction "is" arbitrary: st) (simp_all add: step_attrs)

lemma fold_length:
  "length (controls (fst (fold (check_step clean bad msg) is st))) = length (controls (fst st))"
  using fold_attrs [of clean bad msg "is" st] by (metis length_map)
















lemmas validate_eval = validateForm_def requiredFields_def emailFields_def passwordFields_def
  check_required_def check_email_def check_password_def classList_update_def showFieldError_def
  remove_errorDiv_def is_email_def is_password_def text_input_def Let_def trim_def js_def
  is_space_def

text \<open>
  The message of a required control is appended to its parent, and the turn of a later
  required control under the same parent removes the first message found there: of two
  required controls in one parent, the first empty and the second filled, the first ends
  marked and without its message on the page.
\<close>

lemma validateForm_shared_parent:
  "\<not> fst (validateForm shared_form)
   \<and> ''is-invalid'' \<in> f_classes (controls (snd (validateForm shared_form)) ! 0)
   \<and> appended (snd (validateForm shared_form)) = [(0, RequiredMessage)]
   \<and> feedback (snd (validateForm shared_form)) 0 = []"
  by (simp add: shared_form_def validate_eval)

section \<open>Properties of the export queue\<close>

subsection \<open>What each operation changes\<close>

lemma exportQueue_emit [simp]: "exportQueue (emit a s) = exportQueue s"
  by (simp add: emit_def)

lemma exportQueue_note_point [simp]: "exportQueue (note_point s) = exportQueue s"
  by (simp add: note_point_def)

lemma exportQueue_set_status [simp]: "exportQueue (set_status a v s) = exportQueue s"
  by (simp add: set_status_def)

lemma exportQueue_set_progress [simp]: "exportQueue (set_progress a p s) = exportQueue s"
  by (simp add: set_progress_def)

lemma processExportJob_loop_not_Done:
  "prog \<le> 100 \<Longrightarrow> fst (processExportJob_loop job prog s) \<noteq> Done"
  by (simp add: processExportJob_loop_def split: completion.splits)

lemma processExportJob_not_Done: "fst (processExportJob job s) \<noteq> Done"
  by (simp add: processExportJob_def processExportJob_loop_not_Done split: completion.splits)

lemmas rs_eval = run_def init_def park_def handleExport_def addToExportQueue_def
  processExportQueue_def processExportQueue_resume_def processExportJob_resume_def
  processExportJob_def processExportJob_loop_def catch_block_def renderExportQueue_def
  downloadExportResult_def shift_queue_def push_job_def set_progress_def set_status_def
  note_point_def emit_def queue_jobs_def is_string_def while_loop.simps Let_def

lemma emit_fields [simp]:
  "heap (emit a s) = heap s" "isProcessing (emit a s) = isProcessing s"
  "queueContainer (emit a s) = queueContainer s" "waiting (emit a s) = waiting s"
  "trace (emit a s) = trace s @ [a]" "points (emit a s) = points s"
  "queue_jobs (emit a s) = queue_jobs s"
  by (simp_all add: emit_def queue_jobs_def)

lemma note_point_fields [simp]:
  "heap (note_point s) = heap s" "isProcessing (note_point s) = isProcessing s"
  "queueContainer (note_point s) = queueContainer s" "waiting (note_point s) = waiting s"
  "trace (note_point s) = trace s" "points (note_point s) = points s @ [queue_jobs s]"
  "queue_jobs (note_point s) = queue_jobs s"
  by (simp_all add: note_point_def queue_jobs_def)

lemma rendered_fields [simp]:
  "heap (rendered s) = heap s" "exportQueue (rendered s) = exportQueue s"
  "isProcessing (rendered s) = isProcessing s"
  "queueContainer (rendered s) = queueContainer s" "waiting (rendered s) = waiting s"
  "points (rendered s) = points s" "queue_jobs (rendered s) = queue_jobs s"
  "trace (rendered s) = trace s @ (if queueContainer s then [Render (queue_jobs s)] else [])"
  by (simp_all add: rendered_def)

lemma set_status_fields [simp]:
  "isProcessing (set_status a v s) = isProcessing s"
  "queueContainer (set_status a v s) = queueContainer s" "waiting (set_status a v s) = waiting s"
  "length (heap (set_status a v s)) = length (heap s)"
  "trace (set_status a v s) = trace s @ [SetStatus a (status (heap s ! a)) v]"
  "points (set_status a v s) = points s @ [queue_jobs (set_status a v s)]"
  by (simp_all add: set_status_def queue_jobs_def)

lemma set_progress_fields [simp]:
  "isProcessing (set_progress a p s) = isProcessing s"
  "queueContainer (set_progress a p s) = queueContainer s"
  "waiting (set_progress a p s) = waiting s"
  "length (heap (set_progress a p s)) = length (heap s)"
  "trace (set_progress a p s) = trace s @ [SetProgress a p]"
  "points (set_progress a p s) = points s @ [queue_jobs (set_progress a p s)]"
  by (simp_all add: set_progress_def queue_jobs_def)

lemma heap_set_status:
  "heap (set_status a v s) = (heap s)[a := (heap s ! a)\<lparr>status := v\<rparr>]"
  by (simp add: set_status_def)

lemma heap_set_progress:
  "heap (set_progress a p s) = (heap s)[a := (heap s ! a)\<lparr>progress := p\<rparr>]"
  by (simp add: set_progress_def)

lemma nth_update_field:
  "f (xs[a := g (xs ! a)] ! b) = (if b = a \<and> a < length xs then f (g (xs ! a)) else f (xs ! b))"
  by (cases "a < length xs") (simp_all add: nth_list_update list_update_beyond)

lemma set_status_job [simp]:
  "job_format (heap (set_status a v s) ! b) = job_format (heap s ! b)"
  "job_type (heap (set_status a v s) ! b) = job_type (heap s ! b)"
  "job_id (heap (set_status a v s) ! b) = job_id (heap s ! b)"
  "progress (heap (set_status a v s) ! b) = progress (heap s ! b)"
  "status (heap (set_status a v s) ! b)
     = (if b = a \<and> a < length (heap s) then v else status (heap s ! b))"
  unfolding heap_set_status
  by (simp_all add: nth_update_field [where g = "\<lambda>j. j\<lparr>status := v\<rparr>"])

lemma set_progress_job [simp]:
  "job_format (heap (set_progress a p s) ! b) = job_format (heap s ! b)"
  "job_type (heap (set_progress a p s) ! b) = job_type (heap s ! b)"
  "job_id (heap (set_progress a p s) ! b) = job_id (heap s ! b)"
  "status (heap (set_progress a p s) ! b) = status (heap s ! b)"
  "progress (heap (set_progress a p s) ! b)
     = (if b = a \<and> a < length (heap s) then p else progress (heap s ! b))"
  unfolding heap_set_progress
  by (simp_all add: nth_update_field [where g = "\<lambda>j. j\<lparr>progress := p\<rparr>"])

lemma push_job_fields [simp]:
  "heap (push_job a s) = heap s" "exportQueue (push_job a s) = exportQueue s @ [a]"
  "isProcessing (push_job a s) = isProcessing s"
  "queueContainer (push_job a s) = queueContainer s" "waiting (push_job a s) = waiting s"
  "trace (push_job a s) = trace s @ [Push a]"
  "points (push_job a s) = points s @ [queue_jobs (push_job a s)]"
  by (simp_all add: push_job_def queue_jobs_def)

lemma shift_queue_fields [simp]:
  "heap (shift_queue s) = heap s" "exportQueue (shift_queue s) = tl (exportQueue s)"
  "isProcessing (shift_queue s) = isProcessing s"
  "queueContainer (shift_queue s) = queueContainer s" "waiting (shift_queue s) = waiting s"
  "trace (shift_queue s) = trace s @ [Shift (case exportQueue s of [] \<Rightarrow> None | a # r \<Rightarrow> Some a)]"
  "points (shift_queue s) = points s @ [queue_jobs (shift_queue s)]"
  by (simp_all add: shift_queue_def queue_jobs_def split: list.splits)

lemma downloadExportResult_fields [simp]:
  "heap (downloadExportResult a s) = heap s"
  "exportQueue (downloadExportResult a s) = exportQueue s"
  "isProcessing (downloadExportResult a s) = isProcessing s"
  "queueContainer (downloadExportResult a s) = queueContainer s"
  "waiting (downloadExportResult a s) = waiting s"
  "points (downloadExportResult a s) = points s"
  "queue_jobs (downloadExportResult a s) = queue_jobs s"
  "trace (downloadExportResult a s)
     = trace s @ [ConsoleLog (job_type (heap s ! a)) (job_format (heap s ! a))]"
  by (simp_all add: downloadExportResult_def)

subsection \<open>The segments as changes of the state\<close>

lemma renderExportQueue_eq:
  "renderExportQueue s = (if render_ok s then Normal (rendered s) else Throw TypeError s)"
  by (simp add: renderExportQueue_def render_ok_def rendered_def)

lemma render_ok_iff:
  "render_ok s \<longleftrightarrow>
     (queueContainer s \<longrightarrow> (\<forall>a \<in> set (exportQueue s). is_string (job_format (heap s ! a))))"
  by (simp add: render_ok_def queue_jobs_def list_all_iff)

lemma render_ok_simps [simp]:
  "render_ok (emit act s) = render_ok s"
  "render_ok (rendered s) = render_ok s"
  "render_ok (set_status a v s) = render_ok s"
  "render_ok (set_progress a p s) = render_ok s"
  "render_ok (downloadExportResult a s) = render_ok s"
  "render_ok (s\<lparr>isProcessing := b\<rparr>) = render_ok s"
  "render_ok (s\<lparr>waiting := w\<rparr>) = render_ok s"
  by (simp_all add: render_ok_iff)

lemma render_ok_shift: "render_ok s \<Longrightarrow> render_ok (shift_queue s)"
  by (cases "exportQueue s") (auto simp: render_ok_iff)

lemma processExportJob_loop_eq:
  "processExportJob_loop job p s =
     (if p \<le> 100 then
        (if render_ok s then (Await p, step_job job p s)
         else (Raised TypeError, set_progress job p s))
      else
        (if render_ok s then (Done, finish_job job s)
         else (Raised TypeError, set_status job ''completed'' s)))"
  by (simp add: processExportJob_loop_def renderExportQueue_eq step_job_def finish_job_def)

lemma processExportJob_eq:
  "processExportJob job s =
     (if render_ok s then (Await 0, start_job job s)
      else (Raised TypeError, set_status job ''processing'' s))"
  by (simp add: processExportJob_def renderExportQueue_eq processExportJob_loop_eq
      start_job_def step_job_def)

lemma catch_block_eq:
  "catch_block job s =
     (if render_ok s then (Done, (rendered (fail_job job s))\<lparr>isProcessing := False\<rparr>)
      else (Raised TypeError, fail_job job s))"
  by (simp add: catch_block_def renderExportQueue_eq fail_job_def)

lemma while_loop_eq:
  "while_loop s =
     (if exportQueue s = [] then (Done, s\<lparr>isProcessing := False\<rparr>)
      else if render_ok s then (Await (hd (exportQueue s), 0), start_job (hd (exportQueue s)) s)
      else (Raised TypeError,
            fail_job (hd (exportQueue s)) (set_status (hd (exportQueue s)) ''processing'' s)))"
  by (subst while_loop.simps) (simp add: processExportJob_eq catch_block_eq Let_def)

lemma processExportQueue_eq:
  "processExportQueue s =
     (if isProcessing s \<or> exportQueue s = [] then (Done, s)
      else if render_ok s
        then (Await (hd (exportQueue s), 0),
              start_job (hd (exportQueue s)) (s\<lparr>isProcessing := True\<rparr>))
      else (Raised TypeError,
            fail_job (hd (exportQueue s))
              (set_status (hd (exportQueue s)) ''processing'' (s\<lparr>isProcessing := True\<rparr>))))"
  by (simp add: processExportQueue_def while_loop_eq)

lemma processExportQueue_resume_eq:
  "processExportQueue_resume job p s =
     (if p + 10 \<le> 100 then
        (if render_ok s then (Await (job, p + 10), step_job job (p + 10) s)
         else (Raised TypeError, fail_job job (set_progress job (p + 10) s)))
      else
        (if render_ok s then while_loop (shift_queue (finish_job job s))
         else (Raised TypeError, fail_job job (set_status job ''completed'' s))))"
  by (simp add: processExportQueue_resume_def processExportJob_resume_def
      processExportJob_loop_eq catch_block_eq fail_job_def)

lemma handleExport_eq:
  "handleExport now ty fmt s =
     (let s1 = push_job (length (heap s))
                 (s\<lparr>heap := heap s @ [\<lparr>job_id = now, job_type = ty, job_format = fmt,
                                        status = ''queued'', progress = 0\<rparr>]\<rparr>)
      in if render_ok s1 then processExportQueue (rendered s1) else (Raised TypeError, s1))"
  by (simp add: handleExport_def addToExportQueue_def renderExportQueue_eq Let_def)

subsection \<open>At most one job is processing\<close>

text \<open>
  The invariant holds at the construction and is kept by every event.
\<close>

lemma processing_jobs_now:
  assumes "tail_queued s"
  shows "processing_jobs (queue_jobs s) \<le> 1"
proof (cases "exportQueue s")
  case Nil
  then show ?thesis by (simp add: processing_jobs_def queue_jobs_def)
next
  case (Cons a r)
  with assms have "\<forall>b \<in> set r. status (heap s ! b) \<noteq> ''processing''"
    by (simp add: tail_queued_def)
  then have "filter (\<lambda>job. status job = ''processing'') (map (\<lambda>a. heap s ! a) r) = []"
    by (simp add: filter_empty_conv)
  with Cons show ?thesis by (simp add: processing_jobs_def queue_jobs_def)
qed

lemma calmI:
  "valid s' \<Longrightarrow> tail_queued s' \<Longrightarrow> points_ok s \<Longrightarrow>
   points s' = points s \<or> points s' = points s @ [queue_jobs s'] \<Longrightarrow> calm s'"
  using processing_jobs_now [of s'] by (auto simp: calm_def points_ok_def)

lemma calm_emit [simp]: "calm (emit act s) = calm s"
  by (simp add: calm_def valid_def tail_queued_def points_ok_def)

lemma calm_rendered [simp]: "calm (rendered s) = calm s"
  by (simp add: rendered_def)

lemma calm_download [simp]: "calm (downloadExportResult a s) = calm s"
  by (simp add: calm_def valid_def tail_queued_def points_ok_def)

lemma calm_flags [simp]:
  "calm (s\<lparr>isProcessing := b\<rparr>) = calm s" "calm (s\<lparr>waiting := w\<rparr>) = calm s"
  "calm (s\<lparr>queueContainer := c\<rparr>) = calm s"
  by (simp_all add: calm_def valid_def tail_queued_def points_ok_def)

lemma calm_set_progress: "calm s \<Longrightarrow> calm (set_progress a p s)"
  by (rule calmI [of _ s]) (simp_all add: calm_def valid_def tail_queued_def)

lemma calm_set_status_head:
  assumes "calm s" and "exportQueue s \<noteq> []"
  shows "calm (set_status (hd (exportQueue s)) v s)"
proof (rule calmI [of _ s])
  from assms show "valid (set_status (hd (exportQueue s)) v s)"
    by (simp add: calm_def valid_def)
  from assms have "hd (exportQueue s) \<notin> set (tl (exportQueue s))"
    by (cases "exportQueue s") (simp_all add: calm_def valid_def)
  with assms show "tail_queued (set_status (hd (exportQueue s)) v s)"
    by (auto simp: calm_def tail_queued_def)
  from assms show "points_ok s" by (simp add: calm_def)
  show "points (set_status (hd (exportQueue s)) v s) = points s
        \<or> points (set_status (hd (exportQueue s)) v s)
           = points s @ [queue_jobs (set_status (hd (exportQueue s)) v s)]"
    by simp
qed

lemma calm_shift: "calm s \<Longrightarrow> calm (shift_queue s)"
proof (rule calmI [of _ s])
  assume c: "calm s"
  then show "valid (shift_queue s)"
    by (cases "exportQueue s") (simp_all add: calm_def valid_def)
  from c show "tail_queued (shift_queue s)"
    by (cases "exportQueue s"; cases "tl (exportQueue s)") (simp_all add: calm_def tail_queued_def)
  from c show "points_ok s" by (simp add: calm_def)
  show "points (shift_queue s) = points s
        \<or> points (shift_queue s) = points s @ [queue_jobs (shift_queue s)]" by simp
qed

lemma calm_push:
  assumes "calm s" and "status j = ''queued''"
  shows "calm (push_job (length (heap s)) (s\<lparr>heap := heap s @ [j]\<rparr>))"
proof (rule calmI [of _ s])
  let ?s = "push_job (length (heap s)) (s\<lparr>heap := heap s @ [j]\<rparr>)"
  from assms(1) have v: "\<forall>a \<in> set (exportQueue s). a < length (heap s)" "distinct (exportQueue s)"
    by (simp_all add: calm_def valid_def)
  then show "valid ?s" by (auto simp: valid_def)
  have "\<forall>a \<in> set (tl (exportQueue s @ [length (heap s)])). status ((heap s @ [j]) ! a) = ''queued''"
  proof
    fix a assume a: "a \<in> set (tl (exportQueue s @ [length (heap s)]))"
    show "status ((heap s @ [j]) ! a) = ''queued''"
    proof (cases "a = length (heap s)")
      case True
      with assms(2) show ?thesis by simp
    next
      case False
      with a have "a \<in> set (tl (exportQueue s))" by (cases "exportQueue s") auto
      moreover from this have "a \<in> set (exportQueue s)" by (cases "exportQueue s") auto
      ultimately show ?thesis using assms(1) v(1)
        by (simp add: calm_def tail_queued_def nth_append)
    qed
  qed
  then show "tail_queued ?s" by (simp add: tail_queued_def)
  from assms(1) show "points_ok s" by (simp add: calm_def)
  show "points ?s = points s \<or> points ?s = points s @ [queue_jobs ?s]" by simp
qed

lemma calm_start_job:
  "calm s \<Longrightarrow> exportQueue s \<noteq> [] \<Longrightarrow> calm (start_job (hd (exportQueue s)) s)"
  by (simp add: start_job_def calm_set_progress calm_set_status_head)

lemma calm_step_job: "calm s \<Longrightarrow> calm (step_job a p s)"
  by (simp add: step_job_def calm_set_progress)

lemma calm_finish_job:
  "calm s \<Longrightarrow> exportQueue s \<noteq> [] \<Longrightarrow> calm (finish_job (hd (exportQueue s)) s)"
  by (simp add: finish_job_def calm_set_status_head)

lemma calm_fail_job:
  "calm s \<Longrightarrow> exportQueue s \<noteq> [] \<Longrightarrow> calm (fail_job (hd (exportQueue s)) s)"
  using calm_set_status_head [of "emit ConsoleError s"] by (simp add: fail_job_def)

lemma job_fields [simp]:
  "exportQueue (start_job a s) = exportQueue s" "isProcessing (start_job a s) = isProcessing s"
  "waiting (start_job a s) = waiting s" "queueContainer (start_job a s) = queueContainer s"
  "exportQueue (step_job a p s) = exportQueue s" "isProcessing (step_job a p s) = isProcessing s"
  "waiting (step_job a p s) = waiting s" "queueContainer (step_job a p s) = queueContainer s"
  "exportQueue (finish_job a s) = exportQueue s" "isProcessing (finish_job a s) = isProcessing s"
  "waiting (finish_job a s) = waiting s" "queueContainer (finish_job a s) = queueContainer s"
  "exportQueue (fail_job a s) = exportQueue s" "isProcessing (fail_job a s) = isProcessing s"
  "waiting (fail_job a s) = waiting s" "queueContainer (fail_job a s) = queueContainer s"
  by (simp_all add: start_job_def step_job_def finish_job_def fail_job_def)

lemma job_status [simp]:
  "status (heap (start_job a s) ! b)
     = (if b = a \<and> a < length (heap s) then ''processing'' else status (heap s ! b))"
  "status (heap (step_job a p s) ! b) = status (heap s ! b)"
  "status (heap (finish_job a s) ! b)
     = (if b = a \<and> a < length (heap s) then ''completed'' else status (heap s ! b))"
  "status (heap (fail_job a s) ! b)
     = (if b = a \<and> a < length (heap s) then ''failed'' else status (heap s ! b))"
  by (simp_all add: start_job_def step_job_def finish_job_def fail_job_def)

lemma job_heap_length [simp]:
  "length (heap (start_job a s)) = length (heap s)"
  "length (heap (step_job a p s)) = length (heap s)"
  "length (heap (finish_job a s)) = length (heap s)"
  "length (heap (fail_job a s)) = length (heap s)"
  by (simp_all add: start_job_def step_job_def finish_job_def fail_job_def)

lemma head_valid: "calm s \<Longrightarrow> exportQueue s \<noteq> [] \<Longrightarrow> hd (exportQueue s) < length (heap s)"
  by (simp add: calm_def valid_def)

lemma inv_while_loop:
  assumes c: "calm s" and p: "isProcessing s" and w: "waiting s = []"
  shows "queue_inv (park (while_loop s))"
proof (cases "exportQueue s = []")
  case True
  with c w show ?thesis
    by (simp add: while_loop_eq park_def queue_inv_def control_ok_def)
next
  case False
  let ?a = "hd (exportQueue s)"
  from c False have a: "?a < length (heap s)" by (rule head_valid)
  show ?thesis
  proof (cases "render_ok s")
    case True
    with False c p w a show ?thesis
      by (simp add: while_loop_eq park_def queue_inv_def control_ok_def calm_start_job)
  next
    case r: False
    from c False have "calm (set_status ?a ''processing'' s)" by (rule calm_set_status_head)
    with False have "calm (fail_job ?a (set_status ?a ''processing'' s))"
      using calm_fail_job [of "set_status ?a ''processing'' s"] by simp
    with r False p w a show ?thesis
      by (simp add: while_loop_eq park_def queue_inv_def control_ok_def)
  qed
qed

lemma inv_not_processing: "queue_inv s \<Longrightarrow> \<not> isProcessing s \<Longrightarrow> waiting s = []"
  by (cases "waiting s"; cases "tl (waiting s)") (auto simp: queue_inv_def control_ok_def)

lemma inv_processExportQueue:
  assumes "queue_inv s"
  shows "queue_inv (park (processExportQueue s))"
proof (cases "isProcessing s \<or> length (exportQueue s) = 0")
  case True
  with assms show ?thesis by (simp add: processExportQueue_def park_def)
next
  case False
  with assms have "waiting s = []" by (simp add: inv_not_processing)
  with assms have "queue_inv (park (while_loop (s\<lparr>isProcessing := True\<rparr>)))"
    by (intro inv_while_loop) (simp_all add: queue_inv_def)
  with False show ?thesis by (simp add: processExportQueue_def)
qed

lemma inv_rendered [simp]: "queue_inv (rendered s) = queue_inv s"
  by (simp add: queue_inv_def control_ok_def split: list.splits)

lemma inv_container [simp]: "queue_inv (s\<lparr>queueContainer := c\<rparr>) = queue_inv s"
  by (simp add: queue_inv_def control_ok_def split: list.splits)

lemma inv_push:
  assumes "queue_inv s" and "status j = ''queued''"
  shows "queue_inv (push_job (length (heap s)) (s\<lparr>heap := heap s @ [j]\<rparr>))"
proof -
  let ?s = "push_job (length (heap s)) (s\<lparr>heap := heap s @ [j]\<rparr>)"
  from assms have c: "calm ?s" by (simp add: queue_inv_def calm_push)
  have h: "exportQueue s \<noteq> [] \<Longrightarrow> hd (exportQueue s @ [length (heap s)]) = hd (exportQueue s)"
    by simp
  have st: "exportQueue s \<noteq> [] \<Longrightarrow>
      status ((heap s @ [j]) ! hd (exportQueue s)) = status (heap s ! hd (exportQueue s))"
    using assms head_valid [of s] by (simp add: queue_inv_def nth_append)
  from assms have "control_ok ?s"
    by (cases "exportQueue s = []")
      (auto simp: queue_inv_def control_ok_def h st split: list.splits if_splits)
  with c show ?thesis by (simp add: queue_inv_def)
qed

lemma inv_handleExport:
  assumes "queue_inv s"
  shows "queue_inv (park (handleExport now ty fmt s))"
proof -
  let ?j = "\<lparr>job_id = now, job_type = ty, job_format = fmt, status = ''queued'', progress = 0\<rparr>"
  let ?s1 = "push_job (length (heap s)) (s\<lparr>heap := heap s @ [?j]\<rparr>)"
  from assms have i: "queue_inv ?s1" by (intro inv_push) simp_all
  show ?thesis
  proof (cases "render_ok ?s1")
    case True
    from i have "queue_inv (rendered ?s1)" by simp
    then have "queue_inv (park (processExportQueue (rendered ?s1)))" by (rule inv_processExportQueue)
    with True show ?thesis by (simp add: handleExport_eq Let_def)
  next
    case False
    with i show ?thesis by (simp add: handleExport_eq Let_def park_def)
  qed
qed

lemma inv_timer:
  assumes "queue_inv s"
  shows "queue_inv (step (Timer k) s)"
proof (cases "k < length (waiting s)")
  case False
  with assms show ?thesis by simp
next
  case True
  with assms obtain w where w: "waiting s = [w]" and k: "k = 0"
    by (cases "waiting s"; cases "tl (waiting s)") (auto simp: queue_inv_def control_ok_def)
  let ?a = "fst w" and ?p = "snd w"
  let ?s0 = "s\<lparr>waiting := []\<rparr>"
  from assms w have c: "calm ?s0" and pr: "isProcessing s" and q: "exportQueue s \<noteq> []"
    and hd: "hd (exportQueue s) = ?a" and st: "status (heap s ! ?a) = ''processing''"
    by (simp_all add: queue_inv_def control_ok_def)
  from c q hd have a: "?a < length (heap s)" using head_valid [of ?s0] by simp
  have step: "step (Timer k) s = park (processExportQueue_resume ?a ?p ?s0)"
    using w k by simp
  have fail: "\<And>s1. calm s1 \<Longrightarrow> exportQueue s1 = exportQueue s \<Longrightarrow> isProcessing s1 \<Longrightarrow>
      waiting s1 = [] \<Longrightarrow> length (heap s1) = length (heap s) \<Longrightarrow> queue_inv (fail_job ?a s1)"
  proof -
    fix s1 assume s1: "calm s1" "exportQueue s1 = exportQueue s" "isProcessing s1"
      "waiting s1 = []" "length (heap s1) = length (heap s)"
    with q hd have "calm (fail_job ?a s1)" using calm_fail_job [of s1] by simp
    with s1 q hd a show "queue_inv (fail_job ?a s1)" by (simp add: queue_inv_def control_ok_def)
  qed
  show ?thesis
  proof (cases "render_ok ?s0")
    case False
    show ?thesis
    proof (cases "?p + 10 \<le> 100")
      case True
      from c have "calm (set_progress ?a (?p + 10) ?s0)" by (rule calm_set_progress)
      from fail [OF this] pr have "queue_inv (fail_job ?a (set_progress ?a (?p + 10) ?s0))" by simp
      with False True show ?thesis
        by (simp add: step processExportQueue_resume_eq park_def del: step.simps)
    next
      case p: False
      from c q hd have "calm (set_status ?a ''completed'' ?s0)"
        using calm_set_status_head [of ?s0] by simp
      from fail [OF this] pr have "queue_inv (fail_job ?a (set_status ?a ''completed'' ?s0))" by simp
      with False p show ?thesis
        by (simp add: step processExportQueue_resume_eq park_def del: step.simps)
    qed
  next
    case True
    show ?thesis
    proof (cases "?p + 10 \<le> 100")
      case p: True
      from c have "calm (step_job ?a (?p + 10) ?s0)" by (rule calm_step_job)
      with True p pr q hd st show ?thesis
        by (simp add: step processExportQueue_resume_eq park_def queue_inv_def control_ok_def del: step.simps)
    next
      case p: False
      from c q hd have "calm (finish_job ?a ?s0)" using calm_finish_job [of ?s0] by simp
      then have "calm (shift_queue (finish_job ?a ?s0))" by (rule calm_shift)
      with pr have "queue_inv (park (while_loop (shift_queue (finish_job ?a ?s0))))"
        by (intro inv_while_loop) simp_all
      with True p show ?thesis
        by (simp add: step processExportQueue_resume_eq del: step.simps)
    qed
  qed
qed

lemma inv_step: "queue_inv s \<Longrightarrow> queue_inv (step e s)"
  by (cases e) (simp_all add: inv_handleExport inv_processExportQueue inv_timer del: step.simps(2))

lemma inv_init: "queue_inv (init c)"
  by (simp add: queue_inv_def calm_def valid_def tail_queued_def points_ok_def control_ok_def init_def
      processing_jobs_def)

lemma inv_run: "queue_inv s \<Longrightarrow> queue_inv (run es s)"
  unfolding run_def by (induction es arbitrary: s) (simp_all add: inv_step)

lemma inv_waiting: "queue_inv s \<Longrightarrow> length (waiting s) \<le> 1"
  by (cases "waiting s"; cases "tl (waiting s)") (auto simp: queue_inv_def control_ok_def)

lemma guard_returns:
  "isProcessing s \<or> exportQueue s = [] \<Longrightarrow> processExportQueue s = (Done, s)"
  by (simp add: processExportQueue_def)

lemma reachable_one_at_a_time:
  "(\<forall>q \<in> set (points (run es (init c))). processing_jobs q \<le> 1)
   \<and> processing_jobs (queue_jobs (run es (init c))) \<le> 1
   \<and> length (waiting (run es (init c))) \<le> 1"
proof -
  have i: "queue_inv (run es (init c))" by (intro inv_run inv_init)
  then have "calm (run es (init c))" by (simp add: queue_inv_def)
  then have "points_ok (run es (init c))" "tail_queued (run es (init c))"
    by (simp_all add: calm_def)
  with i show ?thesis
    using processing_jobs_now [of "run es (init c)"] inv_waiting [of "run es (init c)"]
    by (simp add: points_ok_def)
qed

text \<open>
  Claim C1. A call of \<open>processExportQueue\<close> made while \<open>isProcessing\<close> is true or the
  queue is empty returns at once and changes nothing. In every state the object can reach
  from its construction, by submissions of the export form, delays elapsing, direct calls of
  \<open>processExportQueue\<close> and changes of the page, at most one job of the queue has status
  \<open>processing\<close>, and so it was after every change of the queue or of a job on the way;
  at most one call of \<open>processExportQueue\<close> is suspended.
\<close>

theorem export_queue_one_job_at_a_time:
  "(isProcessing s \<or> exportQueue s = [] \<longrightarrow> processExportQueue s = (Done, s))
   \<and> (\<forall>q \<in> set (points (run es (init c))). processing_jobs q \<le> 1)
   \<and> processing_jobs (queue_jobs (run es (init c))) \<le> 1
   \<and> length (waiting (run es (init c))) \<le> 1"
  using guard_returns [of s] reachable_one_at_a_time [of es c] by blast

text \<open>
  The theorem after one submission: the call is suspended in its first delay, a second call
  returns at once, and the job is the one that is processing.
\<close>

lemma csv_job_submitted:
  "isProcessing (run [csv_job] (init True))"
  "exportQueue (run [csv_job] (init True)) = [0]"
  "waiting (run [csv_job] (init True)) = [(0, 0)]"
  "map processing_jobs (points (run [csv_job] (init True))) = [0, 0, 1, 1]"
  "processing_jobs (queue_jobs (run [csv_job] (init True))) = 1"
  by (simp_all add: rs_eval csv_job_def processing_jobs_def)

theorem export_queue_one_job_at_a_time_witness:
  "isProcessing (run [csv_job] (init True))
   \<and> processExportQueue (run [csv_job] (init True)) = (Done, run [csv_job] (init True))
   \<and> map processing_jobs (points (run [csv_job] (init True))) = [0, 0, 1, 1]
   \<and> processing_jobs (queue_jobs (run [csv_job] (init True))) = 1
   \<and> length (waiting (run [csv_job] (init True))) = 1"
  using export_queue_one_job_at_a_time [of "run [csv_job] (init True)" "[csv_job]" True]
    csv_job_submitted
  by simp

subsection \<open>Runs of timers\<close>

lemma timer_progress:
  assumes "waiting s = [(a, p)]" and "p + 10 \<le> 100" and "render_ok s"
  shows "step (Timer 0) s = (step_job a (p + 10) (s\<lparr>waiting := []\<rparr>))\<lparr>waiting := [(a, p + 10)]\<rparr>"
  using assms by (simp add: processExportQueue_resume_eq park_def)

lemma run_append: "run (es @ es') s = run es' (run es s)"
  by (simp add: run_def)

lemma run_Cons: "run (e # es) s = run es (step e s)"
  by (simp add: run_def)

lemma run_Nil: "run [] s = s"
  by (simp add: run_def)

lemma step_job_job [simp]:
  "job_format (heap (step_job a p s) ! b) = job_format (heap s ! b)"
  "job_type (heap (step_job a p s) ! b) = job_type (heap s ! b)"
  "render_ok (step_job a p s) = render_ok s"
  by (simp_all add: step_job_def)

lemma timers_progress:
  "waiting s = [(a, p)] \<Longrightarrow> p + 10 * n \<le> 100 \<Longrightarrow> render_ok s \<Longrightarrow>
   waiting (run (replicate n (Timer 0)) s) = [(a, p + 10 * n)]
   \<and> render_ok (run (replicate n (Timer 0)) s)
   \<and> exportQueue (run (replicate n (Timer 0)) s) = exportQueue s
   \<and> length (heap (run (replicate n (Timer 0)) s)) = length (heap s)
   \<and> queueContainer (run (replicate n (Timer 0)) s) = queueContainer s
   \<and> isProcessing (run (replicate n (Timer 0)) s) = isProcessing s
   \<and> (\<forall>b. status (heap (run (replicate n (Timer 0)) s) ! b) = status (heap s ! b))
   \<and> (\<forall>b. job_format (heap (run (replicate n (Timer 0)) s) ! b) = job_format (heap s ! b))"
proof (induction n arbitrary: s p)
  case 0
  then show ?case by (simp add: run_Nil)
next
  case (Suc n)
  let ?s = "(step_job a (p + 10) (s\<lparr>waiting := []\<rparr>))\<lparr>waiting := [(a, p + 10)]\<rparr>"
  from Suc.prems have st: "step (Timer 0) s = ?s" by (intro timer_progress) simp_all
  from Suc.prems have "waiting ?s = [(a, p + 10)]" "p + 10 + 10 * n \<le> 100" "render_ok ?s"
    by simp_all
  from Suc.IH [OF this] st show ?case
    by (simp add: run_Cons add.assoc del: step.simps)
qed

lemma submit_unrenderable:
  assumes "queueContainer s" and "\<not> is_string fmt"
  shows "step (SubmitExport now ty fmt) s =
           push_job (length (heap s))
             (s\<lparr>heap := heap s @ [\<lparr>job_id = now, job_type = ty, job_format = fmt,
                                    status = ''queued'', progress = 0\<rparr>]\<rparr>)"
proof -
  let ?s1 = "push_job (length (heap s))
             (s\<lparr>heap := heap s @ [\<lparr>job_id = now, job_type = ty, job_format = fmt,
                                    status = ''queued'', progress = 0\<rparr>]\<rparr>)"
  from assms have "\<not> render_ok ?s1" by (simp add: render_ok_iff)
  then show ?thesis by (simp add: handleExport_eq Let_def park_def)
qed

lemma submit_unrenderable_state:
  assumes "queueContainer s" and "\<not> is_string fmt"
  shows "\<not> render_ok (step (SubmitExport now ty fmt) s)"
    and "waiting (step (SubmitExport now ty fmt) s) = waiting s"
    and "length (heap (step (SubmitExport now ty fmt) s)) = Suc (length (heap s))"
  unfolding submit_unrenderable [OF assms] using assms by (simp_all add: render_ok_iff)

lemma timer_fails_after_completion:
  assumes "waiting s = [(a, p)]" and "\<not> p + 10 \<le> 100" and "\<not> render_ok s"
  shows "step (Timer 0) s = fail_job a (set_status a ''completed'' (s\<lparr>waiting := []\<rparr>))"
  using assms by (simp add: processExportQueue_resume_eq park_def)

lemma trace_fail_after_completion:
  "a < length (heap s) \<Longrightarrow>
   trace (fail_job a (set_status a ''completed'' s))
     = trace s @ [SetStatus a (status (heap s ! a)) ''completed'', ConsoleError,
                  SetStatus a ''completed'' ''failed'']"
  by (simp add: fail_job_def)

subsection \<open>Traces of a run\<close>

text \<open>
  What a run adds to the trace, and the queue draining from a state in which the front job
  is suspended in a delay.
\<close>

lemma removals_append [simp]: "removals (xs @ ys) = removals xs @ removals ys"
  by (simp add: removals_def)

lemma removals_simps [simp]:
  "removals [] = []" "removals (Shift (Some a) # tr) = a # removals tr"
  "removals (Shift None # tr) = removals tr"
  "removals (Push a # tr) = removals tr" "removals (SetStatus a old new # tr) = removals tr"
  "removals (SetProgress a p # tr) = removals tr" "removals (Render q # tr) = removals tr"
  "removals (Delay ms # tr) = removals tr" "removals (ConsoleLog t f # tr) = removals tr"
  "removals (ConsoleError # tr) = removals tr"
  by (simp_all add: removals_def)

lemma effects_append [simp]: "effects (xs @ ys) = effects xs @ effects ys"
  by (simp add: effects_def)

lemma effects_simps [simp]:
  "effects [] = []" "effects (Render q # tr) = effects tr"
  "effects (Shift x # tr) = Shift x # effects tr"
  "effects (Push a # tr) = Push a # effects tr"
  "effects (SetStatus a old new # tr) = SetStatus a old new # effects tr"
  "effects (SetProgress a p # tr) = SetProgress a p # effects tr"
  "effects (Delay ms # tr) = Delay ms # effects tr"
  "effects (ConsoleLog t f # tr) = ConsoleLog t f # effects tr"
  "effects (ConsoleError # tr) = ConsoleError # effects tr"
  by (simp_all add: effects_def)

lemma trace_jobs:
  "trace (start_job a s)
     = trace s @ [SetStatus a (status (heap s ! a)) ''processing'']
       @ (if queueContainer s then [Render (queue_jobs (set_status a ''processing'' s))] else [])
       @ [SetProgress a 0]
       @ (if queueContainer s
          then [Render (queue_jobs (set_progress a 0 (rendered (set_status a ''processing'' s))))]
          else [])
       @ [Delay 500]"
  "trace (step_job a p s)
     = trace s @ [SetProgress a p]
       @ (if queueContainer s then [Render (queue_jobs (set_progress a p s))] else [])
       @ [Delay 500]"
  "trace (finish_job a s)
     = trace s @ [SetStatus a (status (heap s ! a)) ''completed'']
       @ (if queueContainer s then [Render (queue_jobs (set_status a ''completed'' s))] else [])
       @ [ConsoleLog (job_type (heap s ! a)) (job_format (heap s ! a))]"
  by (simp_all add: start_job_def step_job_def finish_job_def)

lemma removals_jobs [simp]:
  "removals (trace (start_job a s)) = removals (trace s)"
  "removals (trace (step_job a p s)) = removals (trace s)"
  "removals (trace (finish_job a s)) = removals (trace s)"
  by (simp_all add: trace_jobs)

lemma removals_start_waiting:
  "removals (trace ((start_job b x)\<lparr>waiting := w\<rparr>)) = removals (trace x)"
  by simp

lemma run_timers_idle: "waiting s = [] \<Longrightarrow> run_timers n s = s"
  by (cases n) simp_all

lemma timer_finishes:
  assumes "waiting s = [(a, p)]" and "\<not> p + 10 \<le> 100" and "render_ok s"
  shows "step (Timer 0) s = park (while_loop (shift_queue (finish_job a (s\<lparr>waiting := []\<rparr>))))"
  using assms by (simp add: processExportQueue_resume_eq)

lemma start_job_render_ok [simp]: "render_ok (start_job a s) = render_ok s"
  by (simp add: start_job_def)

lemma finish_job_render_ok [simp]: "render_ok (finish_job a s) = render_ok s"
  by (simp add: finish_job_def)

lemma drain_from:
  "waiting s = [(hd (exportQueue s), p)] \<Longrightarrow> exportQueue s \<noteq> [] \<Longrightarrow> render_ok s \<Longrightarrow>
   isProcessing s \<Longrightarrow> p \<le> 100 \<Longrightarrow> 10 dvd p \<Longrightarrow>
   n = (100 - p) div 10 + 1 + 11 * (length (exportQueue s) - 1) \<Longrightarrow>
   exportQueue (run_timers n s) = [] \<and> \<not> isProcessing (run_timers n s)
   \<and> waiting (run_timers n s) = []
   \<and> removals (trace (run_timers n s)) = removals (trace s) @ exportQueue s"
proof (induction n arbitrary: s p)
  case 0
  then show ?case by simp
next
  case (Suc n)
  let ?a = "hd (exportQueue s)"
  let ?s0 = "s\<lparr>waiting := []\<rparr>"
  from Suc.prems(1) have rt: "run_timers (Suc n) s = run_timers n (step (Timer 0) s)"
    by (simp del: step.simps)
  show ?case
  proof (cases "p + 10 \<le> 100")
    case True
    let ?s1 = "(step_job ?a (p + 10) ?s0)\<lparr>waiting := [(?a, p + 10)]\<rparr>"
    from Suc.prems True have st: "step (Timer 0) s = ?s1" by (intro timer_progress) simp_all
    from Suc.prems(6,7) True have n: "n = (100 - (p + 10)) div 10 + 1 + 11 * (length (exportQueue ?s1) - 1)"
      by (auto elim!: dvdE)
    from Suc.prems True have "10 dvd p + 10" by simp
    with Suc.prems True n
    have "exportQueue (run_timers n ?s1) = [] \<and> \<not> isProcessing (run_timers n ?s1)
      \<and> waiting (run_timers n ?s1) = []
      \<and> removals (trace (run_timers n ?s1)) = removals (trace ?s1) @ exportQueue ?s1"
      by (intro Suc.IH [of ?s1 "p + 10"]) simp_all
    then show ?thesis unfolding rt st by simp
  next
    case False
    with Suc.prems(5,6) have p: "p = 100" by (auto elim!: dvdE)
    let ?s2 = "shift_queue (finish_job ?a ?s0)"
    from Suc.prems False have st: "step (Timer 0) s = park (while_loop ?s2)"
      by (intro timer_finishes) simp_all
    from Suc.prems(2) have q: "exportQueue s = ?a # tl (exportQueue s)" by simp
    have tr2: "removals (trace ?s2) = removals (trace s) @ [?a]"
      using Suc.prems(2) by (cases "exportQueue s") simp_all
    from Suc.prems(3) have r2: "render_ok ?s2" by (intro render_ok_shift) simp
    show ?thesis
    proof (cases "tl (exportQueue s) = []")
      case True
      then have "park (while_loop ?s2) = ?s2\<lparr>isProcessing := False\<rparr>"
        by (simp add: while_loop_eq park_def)
      moreover from True q have "exportQueue s = [?a]" by simp
      ultimately show ?thesis unfolding rt st using True tr2
        by (simp add: run_timers_idle)
    next
      case ne: False
      let ?b = "hd (tl (exportQueue s))"
      let ?s3 = "(start_job ?b ?s2)\<lparr>waiting := [(?b, 0)]\<rparr>"
      from ne r2 have w: "park (while_loop ?s2) = ?s3"
        by (simp add: while_loop_eq park_def)
      from ne have len: "length (exportQueue s) \<ge> 2"
        by (cases "exportQueue s"; cases "tl (exportQueue s)") simp_all
      with Suc.prems(7) p have n: "n = (100 - 0) div 10 + 1 + 11 * (length (exportQueue ?s3) - 1)"
        by simp
      from ne r2 Suc.prems(4) n
      have "exportQueue (run_timers n ?s3) = [] \<and> \<not> isProcessing (run_timers n ?s3)
        \<and> waiting (run_timers n ?s3) = []
        \<and> removals (trace (run_timers n ?s3)) = removals (trace ?s3) @ exportQueue ?s3"
        by (intro Suc.IH [of ?s3 0]) simp_all
      moreover have "removals (trace ?s3) = removals (trace ?s2)" by (rule removals_start_waiting)
      moreover from q have "exportQueue s = ?a # exportQueue ?s3" by simp
      ultimately show ?thesis unfolding rt st w using tr2 by simp
    qed
  qed
qed


lemma step_job_progress [simp]:
  "progress (heap (step_job a p s) ! b)
     = (if b = a \<and> a < length (heap s) then p else progress (heap s ! b))"
  by (simp add: step_job_def)





subsection \<open>The simulated progress of a job\<close>





subsection \<open>A job that fails\<close>

lemma processExportJob_raises_iff:
  "(\<exists>e. fst (processExportJob job s) = Raised e) \<longleftrightarrow> \<not> render_ok s"
  "(\<exists>e. fst (processExportJob_resume job p s) = Raised e) \<longleftrightarrow> \<not> render_ok s"
  by (simp_all add: processExportJob_eq processExportJob_resume_def processExportJob_loop_eq)

lemma processExportQueue_catch_rethrows:
  assumes "\<not> isProcessing s" and "exportQueue s \<noteq> []"
    and "fst (processExportJob (hd (exportQueue s)) (s\<lparr>isProcessing := True\<rparr>)) = Raised e"
  shows "fst (processExportQueue s) = Raised TypeError
         \<and> isProcessing (snd (processExportQueue s))
         \<and> exportQueue (snd (processExportQueue s)) = exportQueue s
         \<and> (hd (exportQueue s) < length (heap s) \<longrightarrow>
              status (heap (snd (processExportQueue s)) ! hd (exportQueue s)) = ''failed'')"
proof -
  from assms(3) have "\<not> render_ok s"
    using processExportJob_raises_iff(1) [of "hd (exportQueue s)" "s\<lparr>isProcessing := True\<rparr>"]
    by auto
  with assms(1,2) show ?thesis by (simp add: processExportQueue_eq)
qed

lemma processExportQueue_resume_catch_rethrows:
  assumes "fst (processExportJob_resume job p s) = Raised e"
  shows "fst (processExportQueue_resume job p s) = Raised TypeError
         \<and> isProcessing (snd (processExportQueue_resume job p s)) = isProcessing s
         \<and> exportQueue (snd (processExportQueue_resume job p s)) = exportQueue s
         \<and> (job < length (heap s) \<longrightarrow>
              status (heap (snd (processExportQueue_resume job p s)) ! job) = ''failed'')"
proof -
  from assms have "\<not> render_ok s" using processExportJob_raises_iff(2) [of job p s] by auto
  then show ?thesis by (simp add: processExportQueue_resume_eq)
qed

lemma stuck_forever:
  assumes "isProcessing s" and "waiting s = []"
  shows "isProcessing (step e s) \<and> waiting (step e s) = []
         \<and> (\<forall>b < length (heap s). status (heap (step e s) ! b) = status (heap s ! b))"
proof (cases e)
  case (SubmitExport now ty fmt)
  with assms show ?thesis
    by (simp add: handleExport_eq processExportQueue_eq Let_def park_def nth_append)
next
  case (Timer k)
  with assms show ?thesis by simp
next
  case CallProcessExportQueue
  with assms show ?thesis by (simp add: processExportQueue_eq park_def)
next
  case (ContainerChange b)
  with assms show ?thesis by simp
qed

lemma timer_fails_in_progress:
  assumes "waiting s = [(a, p)]" and "p + 10 \<le> 100" and "\<not> render_ok s"
  shows "step (Timer 0) s = fail_job a (set_progress a (p + 10) (s\<lparr>waiting := []\<rparr>))"
  using assms by (simp add: processExportQueue_resume_eq park_def)

lemma failing_export_run:
  "fst (processExportJob_resume 0 0 ((run [csv_job, no_format_job] (init True))\<lparr>waiting := []\<rparr>))
     = Raised TypeError
   \<and> isProcessing (run failing_export (init True))
   \<and> waiting (run failing_export (init True)) = []
   \<and> exportQueue (run failing_export (init True)) = [0, 1]
   \<and> status (heap (run failing_export (init True)) ! 0) = ''failed''"
proof -
  let ?s1 = "run [csv_job] (init True)"
  let ?s2 = "step no_format_job ?s1"
  let ?s3 = "step (Timer 0) ?s2"
  have run: "run failing_export (init True) = ?s3" "run [csv_job, no_format_job] (init True) = ?s2"
    by (simp_all add: failing_export_def run_Cons run_Nil del: step.simps)
  have s1: "waiting ?s1 = [(0, 0)]" "exportQueue ?s1 = [0]"
    "length (heap ?s1) = 1" "queueContainer ?s1" "isProcessing ?s1"
    by (simp_all add: run_def csv_job_def handleExport_eq processExportQueue_eq Let_def park_def
        init_def render_ok_iff is_string_def start_job_def)
  have u: "\<not> is_string JUndefined" by (simp add: is_string_def)
  have s2: "?s2 = push_job (length (heap ?s1))
             (?s1\<lparr>heap := heap ?s1 @ [\<lparr>job_id = 2, job_type = JString (js ''clients''),
                 job_format = JUndefined, status = ''queued'', progress = 0\<rparr>]\<rparr>)"
    unfolding no_format_job_def using s1(4) u by (rule submit_unrenderable)
  have w2: "waiting ?s2 = [(0, 0)]" and h2: "0 < length (heap ?s2)" and r2: "\<not> render_ok ?s2"
    unfolding no_format_job_def using submit_unrenderable_state [OF s1(4) u] s1 by simp_all
  have q2: "exportQueue ?s2 = [0, 1]" "isProcessing ?s2" unfolding s2 using s1 by simp_all
  from w2 r2 have s3: "?s3 = fail_job 0 (set_progress 0 (0 + 10) (?s2\<lparr>waiting := []\<rparr>))"
    using timer_fails_in_progress [of ?s2 0 0] by (simp del: step.simps)
  from r2 have "fst (processExportJob_resume 0 0 (?s2\<lparr>waiting := []\<rparr>)) = Raised TypeError"
    by (simp add: processExportJob_resume_def processExportJob_loop_eq)
  moreover from q2 h2 have "isProcessing ?s3" "waiting ?s3 = []" "exportQueue ?s3 = [0, 1]"
    "status (heap ?s3 ! 0) = ''failed''"
    unfolding s3 by simp_all
  ultimately show ?thesis unfolding run by simp
qed

lemma stuck_run:
  "isProcessing s \<Longrightarrow> waiting s = [] \<Longrightarrow>
   isProcessing (run es s) \<and> waiting (run es s) = []"
proof (induction es arbitrary: s)
  case Nil
  then show ?case by (simp add: run_Nil)
next
  case (Cons e es)
  from stuck_forever [OF Cons.prems, of e]
  have "isProcessing (step e s)" "waiting (step e s) = []" by simp_all
  from Cons.IH [OF this] show ?case by (simp add: run_Cons del: step.simps)
qed

text \<open>
  Claim C3 fails in the code: after \<open>processExportJob\<close> has thrown, \<open>isProcessing\<close> is
  not set back to false. On a page with the queue element, an export in CSV is submitted,
  then an export whose form data has no entry \<open>format\<close>, then the first delay elapses.
  \<open>processExportJob\<close> throws for the job at the front; the handler sets it to
  \<open>failed\<close> and leaves it in the queue, but its own call of \<open>renderExportQueue\<close>
  throws again, so the statement after the loop is not reached. Whatever happens next,
  \<open>isProcessing\<close> stays true and no call is suspended: nothing is processed any more.
\<close>

theorem failed_export_keeps_isProcessing:
  "fst (processExportJob_resume 0 0 ((run [csv_job, no_format_job] (init True))\<lparr>waiting := []\<rparr>))
     = Raised TypeError
   \<and> exportQueue (run failing_export (init True)) = [0, 1]
   \<and> status (heap (run failing_export (init True)) ! 0) = ''failed''
   \<and> isProcessing (run (failing_export @ es) (init True))
   \<and> waiting (run (failing_export @ es) (init True)) = []"
  using failing_export_run stuck_run [of "run failing_export (init True)" es]
  by (simp add: run_append)

subsection \<open>Draining the queue\<close>

text \<open>
  Claim C4, with the condition it needs. \<open>processExportQueue\<close> is called when no call of
  it is running (\<open>isProcessing\<close> is false and none is suspended), rendering the queue goes
  through, and nothing happens but the delays elapsing. Then after eleven delays for each job
  of the queue the call has finished, \<open>exportQueue\<close> is empty, \<open>isProcessing\<close> is false,
  and the jobs removed by \<open>shift\<close> are the jobs of the queue in the order of the queue.
\<close>

theorem processExportQueue_drains_fifo:
  assumes "\<not> isProcessing s" and "waiting s = []" and "render_ok s"
  shows "exportQueue (run_timers (11 * length (exportQueue s)) (park (processExportQueue s))) = []
    \<and> \<not> isProcessing (run_timers (11 * length (exportQueue s)) (park (processExportQueue s)))
    \<and> waiting (run_timers (11 * length (exportQueue s)) (park (processExportQueue s))) = []
    \<and> removals (trace (run_timers (11 * length (exportQueue s)) (park (processExportQueue s))))
        = removals (trace s) @ exportQueue s"
proof (cases "exportQueue s = []")
  case True
  with assms show ?thesis by (simp add: processExportQueue_eq park_def)
next
  case False
  let ?a = "hd (exportQueue s)"
  let ?s1 = "(start_job ?a (s\<lparr>isProcessing := True\<rparr>))\<lparr>waiting := [(?a, 0)]\<rparr>"
  from assms False have p: "park (processExportQueue s) = ?s1"
    by (simp add: processExportQueue_eq park_def)
  from False have "length (exportQueue s) \<ge> 1" by (cases "exportQueue s") simp_all
  then have n: "11 * length (exportQueue s) = (100 - 0) div 10 + 1 + 11 * (length (exportQueue ?s1) - 1)"
    by simp
  from assms False
  have "exportQueue (run_timers (11 * length (exportQueue s)) ?s1) = []
    \<and> \<not> isProcessing (run_timers (11 * length (exportQueue s)) ?s1)
    \<and> waiting (run_timers (11 * length (exportQueue s)) ?s1) = []
    \<and> removals (trace (run_timers (11 * length (exportQueue s)) ?s1))
        = removals (trace ?s1) @ exportQueue ?s1"
    by (intro drain_from [of ?s1 0] n) simp_all
  then show ?thesis unfolding p by simp
qed

text \<open>
  The theorem at a queue of two jobs that were submitted without a format, on a page whose
  queue element has been removed since: both are removed, first the first.
\<close>

lemma two_unrendered_jobs:
  "\<not> isProcessing (run [no_format_job, no_format_job, ContainerChange False] (init True))"
  "waiting (run [no_format_job, no_format_job, ContainerChange False] (init True)) = []"
  "render_ok (run [no_format_job, no_format_job, ContainerChange False] (init True))"
  "exportQueue (run [no_format_job, no_format_job, ContainerChange False] (init True)) = [0, 1]"
  "removals (trace (run [no_format_job, no_format_job, ContainerChange False] (init True))) = []"
  by (simp_all add: rs_eval no_format_job_def render_ok_def removals_def)

theorem processExportQueue_drains_fifo_witness:
  "\<not> isProcessing (run [no_format_job, no_format_job, ContainerChange False] (init True))
   \<and> waiting (run [no_format_job, no_format_job, ContainerChange False] (init True)) = []
   \<and> render_ok (run [no_format_job, no_format_job, ContainerChange False] (init True))
   \<and> exportQueue (run [no_format_job, no_format_job, ContainerChange False] (init True)) = [0, 1]
   \<and> exportQueue (run_timers 22 (park (processExportQueue
        (run [no_format_job, no_format_job, ContainerChange False] (init True))))) = []
   \<and> \<not> isProcessing (run_timers 22 (park (processExportQueue
        (run [no_format_job, no_format_job, ContainerChange False] (init True)))))
   \<and> removals (trace (run_timers 22 (park (processExportQueue
        (run [no_format_job, no_format_job, ContainerChange False] (init True)))))) = [0, 1]"
  using processExportQueue_drains_fifo [OF two_unrendered_jobs(1,2,3)] two_unrendered_jobs
  by simp

text \<open>
  The claim as it stands fails for a call made while another one is suspended in a delay:
  it returns at once with the job still in the queue and \<open>isProcessing\<close> true.
\<close>

theorem processExportQueue_returns_while_running:
  "processExportQueue (run [csv_job] (init True)) = (Done, run [csv_job] (init True))
   \<and> exportQueue (run [csv_job] (init True)) = [0]
   \<and> isProcessing (run [csv_job] (init True))"
  by (simp add: rs_eval csv_job_def)

subsection \<open>The life of a job\<close>

text \<open>
  In every reachable state every job has one of the four statuses and a progress that is a
  multiple of 10 up to 100.
\<close>

lemma heap_ok_simps [simp]:
  "heap_ok (emit act s) = heap_ok s"
  "heap_ok (rendered s) = heap_ok s"
  "heap_ok (downloadExportResult a s) = heap_ok s"
  "heap_ok (shift_queue s) = heap_ok s"
  "heap_ok (push_job a s) = heap_ok s"
  "heap_ok (s\<lparr>isProcessing := b\<rparr>) = heap_ok s"
  "heap_ok (s\<lparr>queueContainer := b\<rparr>) = heap_ok s"
  "heap_ok (s\<lparr>waiting := ws\<rparr>) = heap_ok s"
  by (simp_all add: heap_ok_def)

lemma heap_ok_set_status:
  "heap_ok s \<Longrightarrow> v \<in> set [''queued'', ''processing'', ''completed'', ''failed''] \<Longrightarrow>
   heap_ok (set_status a v s)"
  unfolding heap_ok_def job_ok_def by simp

lemma heap_ok_set_progress:
  "heap_ok s \<Longrightarrow> p mod 10 = 0 \<Longrightarrow> p \<le> 100 \<Longrightarrow> heap_ok (set_progress a p s)"
  unfolding heap_ok_def job_ok_def by simp

lemma heap_ok_job:
  "heap_ok s \<Longrightarrow> heap_ok (start_job a s)"
  "heap_ok s \<Longrightarrow> p mod 10 = 0 \<Longrightarrow> p \<le> 100 \<Longrightarrow> heap_ok (step_job a p s)"
  "heap_ok s \<Longrightarrow> heap_ok (finish_job a s)"
  "heap_ok s \<Longrightarrow> heap_ok (fail_job a s)"
  by (simp_all add: start_job_def step_job_def finish_job_def fail_job_def
      heap_ok_set_status heap_ok_set_progress)

lemma heap_ok_new:
  "heap_ok s \<Longrightarrow>
   heap_ok (s\<lparr>heap := heap s @ [\<lparr>job_id = now, job_type = ty, job_format = fmt,
                                  status = ''queued'', progress = 0\<rparr>]\<rparr>)"
  unfolding heap_ok_def job_ok_def by (auto simp: nth_append)

lemma waiting_ok_simps [simp]:
  "waiting_ok (xs @ ys) = (waiting_ok xs \<and> waiting_ok ys)"
  "waiting_ok ((a, p) # ws) = (p mod 10 = 0 \<and> p \<le> 100 \<and> waiting_ok ws)"
  "waiting_ok []"
  by (auto simp: waiting_ok_def)

lemma waiting_ok_remove [simp]:
  "waiting_ok ws \<Longrightarrow> waiting_ok (take k ws)"
  "waiting_ok ws \<Longrightarrow> waiting_ok (drop k ws)"
  unfolding waiting_ok_def by (auto dest: in_set_takeD in_set_dropD)

lemma jobs_ok_while_loop: "jobs_ok s \<Longrightarrow> jobs_ok (park (while_loop s))"
  by (simp add: jobs_ok_def while_loop_eq park_def heap_ok_job heap_ok_set_status)

lemma jobs_ok_processExportQueue: "jobs_ok s \<Longrightarrow> jobs_ok (park (processExportQueue s))"
  by (simp add: jobs_ok_def processExportQueue_eq park_def heap_ok_job heap_ok_set_status)

lemma jobs_ok_handleExport: "jobs_ok s \<Longrightarrow> jobs_ok (park (handleExport now ty fmt s))"
  using jobs_ok_processExportQueue
    [of "rendered (push_job (length (heap s))
                 (s\<lparr>heap := heap s @ [\<lparr>job_id = now, job_type = ty, job_format = fmt,
                                        status = ''queued'', progress = 0\<rparr>]\<rparr>))"]
  by (simp add: jobs_ok_def handleExport_eq Let_def heap_ok_new park_def)

lemma jobs_ok_timer:
  assumes "jobs_ok s" and "k < length (waiting s)"
  shows "jobs_ok (park (processExportQueue_resume (fst (waiting s ! k)) (snd (waiting s ! k))
               (s\<lparr>waiting := take k (waiting s) @ drop (Suc k) (waiting s)\<rparr>)))"
proof -
  let ?s = "s\<lparr>waiting := take k (waiting s) @ drop (Suc k) (waiting s)\<rparr>"
  let ?a = "fst (waiting s ! k)" and ?p = "snd (waiting s ! k)"
  from assms have p: "?p mod 10 = 0" unfolding jobs_ok_def waiting_ok_def by (meson nth_mem)
  then have p10: "(?p + 10) mod 10 = 0" by presburger
  from assms(1) have s: "jobs_ok ?s" by (simp add: jobs_ok_def)
  show ?thesis
  proof (cases "?p + 10 \<le> 100")
    case True
    with s p10 show ?thesis
      by (simp add: jobs_ok_def processExportQueue_resume_eq park_def heap_ok_job
          heap_ok_set_progress)
  next
    case False
    from s have "jobs_ok (park (while_loop (shift_queue (finish_job ?a ?s))))"
      by (intro jobs_ok_while_loop) (simp add: jobs_ok_def heap_ok_job)
    with False s show ?thesis
      by (simp add: jobs_ok_def processExportQueue_resume_eq park_def heap_ok_job
          heap_ok_set_status)
  qed
qed

lemma jobs_ok_step: "jobs_ok s \<Longrightarrow> jobs_ok (step e s)"
  by (cases e) (simp_all add: jobs_ok_handleExport jobs_ok_timer jobs_ok_processExportQueue,
      simp add: jobs_ok_def)

lemma jobs_ok_init: "jobs_ok (init c)"
  by (simp add: jobs_ok_def heap_ok_def init_def)

lemma reachable_jobs_ok:
  "b < length (heap (run es (init c))) \<Longrightarrow>
   status (heap (run es (init c)) ! b) \<in> set [''queued'', ''processing'', ''completed'', ''failed'']
   \<and> progress (heap (run es (init c)) ! b) mod 10 = 0
   \<and> progress (heap (run es (init c)) ! b) \<le> 100"
proof -
  have "jobs_ok s \<Longrightarrow> jobs_ok (run es s)" for s
    unfolding run_def by (induction es arbitrary: s) (simp_all add: jobs_ok_step)
  with jobs_ok_init have "jobs_ok (run es (init c))" by blast
  then show "b < length (heap (run es (init c))) \<Longrightarrow> ?thesis"
    by (simp add: jobs_ok_def heap_ok_def job_ok_def)
qed

text \<open>
  Claim C10 fails in the code: a job goes from \<open>processing\<close> to \<open>completed\<close> and from
  there to \<open>failed\<close>. On a page with the queue element, an export in CSV is submitted and
  its ten delays after the first elapse, so that its progress is 100; then an export is
  submitted whose form data has no entry \<open>format\<close>, and the last delay of the first job
  elapses. \<open>processExportJob\<close> sets the first job to \<open>completed\<close>, the rendering that
  follows throws on the second job, and the handler in \<open>processExportQueue\<close> sets the
  first job to \<open>failed\<close>.
\<close>

theorem export_job_completed_then_failed:
  "SetStatus 0 ''completed'' ''failed'' \<in> set (trace (run completed_then_failed (init True)))
   \<and> status (heap (run completed_then_failed (init True)) ! 0) = ''failed''"
proof -
  let ?s1 = "run [csv_job] (init True)"
  let ?s2 = "run (replicate 10 (Timer 0)) ?s1"
  let ?s3 = "step no_format_job ?s2"
  let ?s4 = "step (Timer 0) ?s3"
  have run: "run completed_then_failed (init True) = ?s4"
    by (simp add: completed_then_failed_def run_Cons run_append run_Nil del: step.simps)
  have s1: "waiting ?s1 = [(0, 0)]" "render_ok ?s1" "exportQueue ?s1 = [0]"
    "length (heap ?s1) = 1" "queueContainer ?s1"
    by (simp_all add: run_def csv_job_def handleExport_eq processExportQueue_eq Let_def park_def
        init_def render_ok_iff is_string_def start_job_def)
  from timers_progress [of ?s1 0 0 10] s1
  have s2: "waiting ?s2 = [(0, 100)]" "exportQueue ?s2 = [0]" "length (heap ?s2) = 1"
    "queueContainer ?s2"
    by simp_all
  have u: "\<not> is_string JUndefined" by (simp add: is_string_def)
  have w3: "waiting ?s3 = [(0, 100)]" and h3: "0 < length (heap ?s3)"
    and r3: "\<not> render_ok ?s3"
    unfolding no_format_job_def using submit_unrenderable_state [OF s2(4) u] s2 by simp_all
  from w3 r3 have s4: "?s4 = fail_job 0 (set_status 0 ''completed'' (?s3\<lparr>waiting := []\<rparr>))"
    using timer_fails_after_completion [of ?s3 0 100] by (simp del: step.simps)
  from h3 have "trace ?s4 = trace (?s3\<lparr>waiting := []\<rparr>)
      @ [SetStatus 0 (status (heap (?s3\<lparr>waiting := []\<rparr>) ! 0)) ''completed'', ConsoleError,
         SetStatus 0 ''completed'' ''failed'']"
    unfolding s4 by (intro trace_fail_after_completion) simp
  moreover from h3 have "status (heap ?s4 ! 0) = ''failed''"
    unfolding s4 by simp
  ultimately show ?thesis unfolding run by simp
qed

section \<open>Failure of a fetch\<close>

lemmas fetch_defs = loadReportParameters_def previewReport_def loadDashboardData_def
  loadTemplate_def loadReportTemplates_def fetch_json_render_def showError_def showSuccess_def
  prepend_alert_def console_error_def showLoading_def hideLoading_def showDashboardLoading_def
  hideDashboardLoading_def Let_def





lemma loadReportTemplates_failure:
  assumes "rejects resp"
  shows "loadReportTemplates resp pg
           = Normal (pg\<lparr>requests := requests pg @ [TemplatesUrl],
                         console_errors := Suc (console_errors pg)\<rparr>)"
  using assms by (auto simp: rejects_def fetch_defs)




end
